theory Spec2Isabelle
  imports Complex_Main "HOL-Library.Word"
begin

section \<open>Single-precision floating point numbers\<close>

text \<open>
  A C \<^verbatim>\<open>float\<close> is an IEEE 754 binary32 number: a finite value \<open>m * 2 ^ e\<close> with
  \<open>\<bar>m\<bar> < 2 ^ 24\<close> and \<open>-149 \<le> e \<le> 104\<close>, an infinity, or a NaN. Every arithmetic
  operation computes the exact result and rounds it to the nearest such value, ties to
  the even mantissa (the default rounding mode; each operation is rounded to
  \<^verbatim>\<open>float\<close>, as with \<^verbatim>\<open>FLT_EVAL_METHOD\<close> 0 and no fused multiply-add).

  The type \<open>float32\<close> holds a real number, an infinity or NaN; the operations round
  what they return. \<open>is_float\<close> holds of the members that are binary32 values and
  \<open>is_finite\<close> of the finite ones: a theorem about all of \<open>float32\<close> is a theorem
  about all of them. The two zeros of
  binary32 are one value here. They differ in the sign of a quotient by zero only; where
  the code can divide by a zero, the divisor is \<open>+0\<close> or the result does not depend
  on the sign.
\<close>

datatype float32 = Fin (val: real) | PInf | NInf | NaN

text \<open>The nearest integer, ties to even.\<close>

definition round_even :: "real \<Rightarrow> int" where
  "round_even q =
     (if q - of_int \<lfloor>q\<rfloor> < 1/2 then \<lfloor>q\<rfloor>
      else if 1/2 < q - of_int \<lfloor>q\<rfloor> then \<lfloor>q\<rfloor> + 1
      else if even \<lfloor>q\<rfloor> then \<lfloor>q\<rfloor> else \<lfloor>q\<rfloor> + 1)"

text \<open>
  The binary32 values of magnitude \<open>a\<close> between \<open>2 ^ (k + 23) / 2 ^ 149\<close> and
  \<open>2 ^ (k + 24) / 2 ^ 149\<close> are \<open>2 ^ k / 2 ^ 149\<close> apart, for \<open>0 < k \<le> 253\<close>; the
  smaller ones (the subnormal numbers and the first binade) are \<open>1 / 2 ^ 149\<close> apart.
  \<open>binade a 253\<close> is that \<open>k\<close>.
\<close>

fun binade :: "real \<Rightarrow> nat \<Rightarrow> nat" where
  "binade a 0 = 0"
| "binade a (Suc k) = (if 2^(Suc k + 23) \<le> a*2^149 then Suc k else binade a k)"

text \<open>
  \<open>nearest32 r\<close> is the real number \<open>r\<close> rounded to 24 bits, with no bound above;
  \<open>round32 r\<close> is \<open>r\<close> rounded to binary32: what is rounded to \<open>2 ^ 128\<close> or more
  overflows to an infinity.
\<close>

definition nearest32 :: "real \<Rightarrow> real" where
  "nearest32 r = of_int (round_even (r*2^149/2^(binade \<bar>r\<bar> 253)))*2^(binade \<bar>r\<bar> 253)/2^149"

definition round32 :: "real \<Rightarrow> float32" where
  "round32 r =
     (if 2^128 \<le> nearest32 r then PInf
      else if nearest32 r \<le> - (2^128) then NInf
      else Fin (nearest32 r))"

definition is_float :: "float32 \<Rightarrow> bool" where
  "is_float x \<longleftrightarrow> (case x of Fin a \<Rightarrow> round32 a = Fin a | _ \<Rightarrow> True)"

definition is_finite :: "float32 \<Rightarrow> bool" where
  "is_finite x \<longleftrightarrow> (case x of Fin a \<Rightarrow> round32 a = Fin a | _ \<Rightarrow> False)"

text \<open>
  The operators of C on \<^verbatim>\<open>float\<close>: \<open>-x\<close>, \<open>x + y\<close>, \<open>x - y\<close>, \<open>x*y\<close>, \<open>x/y\<close>,
  \<open>x < y\<close>, \<open>x <= y\<close> (and \<open>y > x\<close>, \<open>y >= x\<close>), with the IEEE 754 results for
  infinities and NaN. A comparison with a NaN is false.
\<close>

instantiation float32 :: uminus
begin

fun uminus_float32 :: "float32 \<Rightarrow> float32" where
  "uminus_float32 (Fin a) = Fin (- a)"
| "uminus_float32 PInf = NInf"
| "uminus_float32 NInf = PInf"
| "uminus_float32 NaN = NaN"

instance ..

end

instantiation float32 :: plus
begin

fun plus_float32 :: "float32 \<Rightarrow> float32 \<Rightarrow> float32" where
  "plus_float32 (Fin a) (Fin b) = round32 (a + b)"
| "plus_float32 NaN y = NaN"
| "plus_float32 x NaN = NaN"
| "plus_float32 PInf NInf = NaN"
| "plus_float32 NInf PInf = NaN"
| "plus_float32 PInf y = PInf"
| "plus_float32 x PInf = PInf"
| "plus_float32 NInf y = NInf"
| "plus_float32 x NInf = NInf"

instance ..

end

instantiation float32 :: minus
begin

definition minus_float32 :: "float32 \<Rightarrow> float32 \<Rightarrow> float32" where
  "minus_float32 x y = x + (- y)"

instance ..

end

instantiation float32 :: times
begin

fun times_float32 :: "float32 \<Rightarrow> float32 \<Rightarrow> float32" where
  "times_float32 (Fin a) (Fin b) = round32 (a*b)"
| "times_float32 NaN y = NaN"
| "times_float32 x NaN = NaN"
| "times_float32 (Fin a) y = (if a = 0 then NaN else if 0 < a then y else - y)"
| "times_float32 x (Fin b) = (if b = 0 then NaN else if 0 < b then x else - x)"
| "times_float32 x y = (if x = y then PInf else NInf)"

instance ..

end

instantiation float32 :: inverse
begin

fun divide_float32 :: "float32 \<Rightarrow> float32 \<Rightarrow> float32" where
  "divide_float32 (Fin a) (Fin b) =
     (if b = 0 then (if a = 0 then NaN else if 0 < a then PInf else NInf)
      else round32 (a/b))"
| "divide_float32 NaN y = NaN"
| "divide_float32 x NaN = NaN"
| "divide_float32 (Fin a) y = Fin 0"
| "divide_float32 x (Fin b) = (if 0 \<le> b then x else - x)"
| "divide_float32 x y = NaN"

fun inverse_float32 :: "float32 \<Rightarrow> float32" where
  "inverse_float32 (Fin b) = (if b = 0 then PInf else round32 (1/b))"
| "inverse_float32 NaN = NaN"
| "inverse_float32 x = Fin 0"

instance ..

end

instantiation float32 :: abs
begin

fun abs_float32 :: "float32 \<Rightarrow> float32" where
  "abs_float32 (Fin a) = Fin \<bar>a\<bar>"
| "abs_float32 PInf = PInf"
| "abs_float32 NInf = PInf"
| "abs_float32 NaN = NaN"

instance ..

end

instantiation float32 :: ord
begin

fun less_float32 :: "float32 \<Rightarrow> float32 \<Rightarrow> bool" where
  "less_float32 (Fin a) (Fin b) = (a < b)"
| "less_float32 (Fin a) PInf = True"
| "less_float32 NInf (Fin b) = True"
| "less_float32 NInf PInf = True"
| "less_float32 x y = False"

fun less_eq_float32 :: "float32 \<Rightarrow> float32 \<Rightarrow> bool" where
  "less_eq_float32 (Fin a) (Fin b) = (a \<le> b)"
| "less_eq_float32 (Fin a) PInf = True"
| "less_eq_float32 NInf (Fin b) = True"
| "less_eq_float32 NInf PInf = True"
| "less_eq_float32 PInf PInf = True"
| "less_eq_float32 NInf NInf = True"
| "less_eq_float32 x y = False"

instance ..

end

text \<open>\<open>x == y\<close> on \<^verbatim>\<open>float\<close>: a NaN is not equal to itself.\<close>

definition feq :: "float32 \<Rightarrow> float32 \<Rightarrow> bool" where
  "feq x y \<longleftrightarrow> x = y \<and> x \<noteq> NaN"

text \<open>
  \<^verbatim>\<open>sqrtf\<close>, which IEEE 754 rounds like an arithmetic operation, \<^verbatim>\<open>ceilf\<close> and
  \<^verbatim>\<open>fabsf\<close>, which are exact.
\<close>

fun sqrtf :: "float32 \<Rightarrow> float32" where
  "sqrtf (Fin a) = (if a < 0 then NaN else round32 (sqrt a))"
| "sqrtf PInf = PInf"
| "sqrtf NInf = NaN"
| "sqrtf NaN = NaN"

fun ceilf :: "float32 \<Rightarrow> float32" where
  "ceilf (Fin a) = Fin (of_int \<lceil>a\<rceil>)"
| "ceilf x = x"

abbreviation fabsf :: "float32 \<Rightarrow> float32" where
  "fabsf x \<equiv> \<bar>x\<bar>"

text \<open>
  \<^verbatim>\<open>(int)f\<close> for a float \<open>f\<close>: truncation towards zero; undefined in C when the value
  does not fit an \<^verbatim>\<open>int\<close>, or is infinite or NaN: \<open>None\<close>. \<^verbatim>\<open>(float)n\<close> for an int \<open>n\<close>
  rounds.
\<close>

fun int_of_float :: "float32 \<Rightarrow> int option" where
  "int_of_float (Fin f) =
     (if - 2147483649 < f \<and> f < 2147483648
      then Some (if 0 \<le> f then \<lfloor>f\<rfloor> else \<lceil>f\<rceil>)
      else None)"
| "int_of_float x = None"

definition float_of_int :: "int \<Rightarrow> float32" where
  "float_of_int n = round32 (of_int n)"

text \<open>
  \<^verbatim>\<open>powf\<close>, \<^verbatim>\<open>acosf\<close>, \<^verbatim>\<open>cosf\<close> and \<^verbatim>\<open>sinf\<close> come from the C library, which does
  not promise how they round: they are parameters of the functions that call them, and
  what is proved of these functions holds for every C library. \<open>libm_rounded\<close> is the
  library that rounds the exact result to nearest (of \<^verbatim>\<open>powf\<close> the code only takes
  squares); it is where closed examples are evaluated.
\<close>

record libm =
  powf :: "float32 \<Rightarrow> float32 \<Rightarrow> float32"
  acosf :: "float32 \<Rightarrow> float32"
  cosf :: "float32 \<Rightarrow> float32"
  sinf :: "float32 \<Rightarrow> float32"

definition libm_rounded :: libm where
  "libm_rounded =
     \<lparr>powf = (\<lambda>x y. if y = Fin 2 then x*x else NaN),
      acosf = (\<lambda>x. case x of Fin a \<Rightarrow> if - 1 \<le> a \<and> a \<le> 1 then round32 (arccos a) else NaN
                     | _ \<Rightarrow> NaN),
      cosf = (\<lambda>x. case x of Fin a \<Rightarrow> round32 (cos a) | _ \<Rightarrow> NaN),
      sinf = (\<lambda>x. case x of Fin a \<Rightarrow> round32 (sin a) | _ \<Rightarrow> NaN)\<rparr>"

section \<open>raylib shapes module (rshapes.c): data model\<close>

text \<open>
  The theory embeds the parts of \<^verbatim>\<open>rshapes.c\<close> that draw circle sectors, rings and
  quadratic bezier lines, the shapes-texture setter and the collision queries.

  Conventions of the embedding.
  \<^item> A C \<^verbatim>\<open>float\<close> is a \<open>float32\<close>. A literal that binary32 holds exactly, such as
    \<^verbatim>\<open>0.5f\<close> or an \<^verbatim>\<open>int\<close> constant converted to \<^verbatim>\<open>float\<close>, is written \<open>Fin\<close>; another
    one, such as \<^verbatim>\<open>0.1f\<close>, is \<open>round32\<close> of its decimal value.
  \<^item> \<^verbatim>\<open>unsigned int\<close> is \<^typ>\<open>32 word\<close>, \<^verbatim>\<open>unsigned char\<close> is \<^typ>\<open>8 word\<close>; an
    \<^verbatim>\<open>int\<close> that is only stored, compared or counted is an \<^typ>\<open>int\<close>.
  \<^item> Calls into the rlgl backend are recorded, in order, as a list of \<open>rl_call\<close>.
  \<^item> The build-time switch \<^verbatim>\<open>SUPPORT_QUADS_DRAW_MODE\<close> (set in config.h) is a boolean
    parameter of the drawing functions.
  The structs share field names (\<open>x\<close>, \<open>y\<close>, \<open>width\<close>, \<open>height\<close>), so each field carries
  its struct's prefix: \<open>vec_x\<close> for \<^verbatim>\<open>RlVector2.x\<close>, \<open>rec_x\<close> for \<^verbatim>\<open>RlRectangle.x\<close>,
  \<open>tex_width\<close> for \<^verbatim>\<open>RlTexture.width\<close>, \<open>col_r\<close> for \<^verbatim>\<open>RlColor.r\<close>.
\<close>

record RlVector2 =
  vec_x :: float32
  vec_y :: float32

record RlColor =
  col_r :: "8 word"
  col_g :: "8 word"
  col_b :: "8 word"
  col_a :: "8 word"

record RlRectangle =
  rec_x :: float32
  rec_y :: float32
  rec_width :: float32
  rec_height :: float32

record RlTexture =
  tex_id :: "32 word"
  tex_width :: int
  tex_height :: int
  tex_mipmaps :: int
  tex_format :: int

section \<open>Collision detection functions\<close>

text \<open>\<^verbatim>\<open>RL_CheckCollisionPointRec\<close>: check if point is inside rectangle.\<close>

definition RL_CheckCollisionPointRec :: "RlVector2 \<Rightarrow> RlRectangle \<Rightarrow> bool" where
  "RL_CheckCollisionPointRec point rec =
     (let collision = False in
      if (vec_x point \<ge> rec_x rec)
         \<and> (vec_x point < (rec_x rec + rec_width rec))
         \<and> (vec_y point \<ge> rec_y rec)
         \<and> (vec_y point < (rec_y rec + rec_height rec))
      then True else collision)"

text \<open>
  The containment the test is read as, in exact arithmetic: \<open>rec.x \<le> p.x < rec.x + rec.width\<close>
  and \<open>rec.y \<le> p.y < rec.y + rec.height\<close> over the real values of finite floats.
\<close>

definition half_open_contains :: "RlRectangle \<Rightarrow> RlVector2 \<Rightarrow> bool" where
  "half_open_contains rec p \<longleftrightarrow>
     val (rec_x rec) \<le> val (vec_x p) \<and> val (vec_x p) < val (rec_x rec) + val (rec_width rec)
     \<and> val (rec_y rec) \<le> val (vec_y p) \<and> val (vec_y p) < val (rec_y rec) + val (rec_height rec)"

text \<open>\<^verbatim>\<open>RL_CheckCollisionCircles\<close>: check collision between two circles.\<close>

definition RL_CheckCollisionCircles :: "RlVector2 \<Rightarrow> float32 \<Rightarrow> RlVector2 \<Rightarrow> float32 \<Rightarrow> bool" where
  "RL_CheckCollisionCircles center1 radius1 center2 radius2 =
     (let collision = False;
          dx = vec_x center2 - vec_x center1;
          dy = vec_y center2 - vec_y center1;
          distance = sqrtf (dx*dx + dy*dy)
      in if distance \<le> (radius1 + radius2) then True else collision)"

text \<open>\<^verbatim>\<open>RL_CheckCollisionPointCircle\<close>: check if point is inside circle.\<close>

definition RL_CheckCollisionPointCircle :: "RlVector2 \<Rightarrow> RlVector2 \<Rightarrow> float32 \<Rightarrow> bool" where
  "RL_CheckCollisionPointCircle point center radius =
     RL_CheckCollisionCircles point (Fin 0) center radius"

text \<open>\<^verbatim>\<open>RL_CheckCollisionRecs\<close>: check collision between two rectangles.\<close>

definition RL_CheckCollisionRecs :: "RlRectangle \<Rightarrow> RlRectangle \<Rightarrow> bool" where
  "RL_CheckCollisionRecs rec1 rec2 =
     (let collision = False in
      if (rec_x rec1 < (rec_x rec2 + rec_width rec2)
          \<and> (rec_x rec1 + rec_width rec1) > rec_x rec2)
         \<and> (rec_y rec1 < (rec_y rec2 + rec_height rec2)
          \<and> (rec_y rec1 + rec_height rec1) > rec_y rec2)
      then True else collision)"

text \<open>\<^verbatim>\<open>RL_GetCollisionRec\<close>: get collision rectangle for two rectangles collision.\<close>

definition RL_GetCollisionRec :: "RlRectangle \<Rightarrow> RlRectangle \<Rightarrow> RlRectangle" where
  "RL_GetCollisionRec rec1 rec2 =
     (let overlap = \<lparr>rec_x = Fin 0, rec_y = Fin 0,
                     rec_width = Fin 0, rec_height = Fin 0\<rparr>;
          left = (if rec_x rec1 > rec_x rec2
                  then rec_x rec1 else rec_x rec2);
          right1 = rec_x rec1 + rec_width rec1;
          right2 = rec_x rec2 + rec_width rec2;
          right = (if right1 < right2 then right1 else right2);
          top = (if rec_y rec1 > rec_y rec2
                 then rec_y rec1 else rec_y rec2);
          bottom1 = rec_y rec1 + rec_height rec1;
          bottom2 = rec_y rec2 + rec_height rec2;
          bottom = (if bottom1 < bottom2 then bottom1 else bottom2)
      in if (left < right) \<and> (top < bottom)
         then \<lparr>rec_x = left, rec_y = top,
               rec_width = right - left, rec_height = bottom - top\<rparr>
         else overlap)"

text \<open>The area of a rectangle, \<^verbatim>\<open>width*height\<close>, as a float.\<close>

definition rec_area :: "RlRectangle \<Rightarrow> float32" where
  "rec_area rec = rec_width rec * rec_height rec"

text \<open>
  A rectangle whose fields are finite floats and whose right and bottom edges, as the
  code computes them, are beyond its left and top edges. A width or height that is zero
  or negative, or so small that \<open>x + width\<close> rounds to \<open>x\<close>, does not qualify.
\<close>

definition proper_rec :: "RlRectangle \<Rightarrow> bool" where
  "proper_rec rec \<longleftrightarrow>
     is_finite (rec_x rec) \<and> is_finite (rec_y rec)
     \<and> is_finite (rec_width rec) \<and> is_finite (rec_height rec)
     \<and> rec_x rec < rec_x rec + rec_width rec \<and> rec_y rec < rec_y rec + rec_height rec"

text \<open>
  \<^verbatim>\<open>RL_CheckCollisionPointTriangle\<close>: check if point is inside a triangle defined by
  three points.
\<close>

definition RL_CheckCollisionPointTriangle ::
  "RlVector2 \<Rightarrow> RlVector2 \<Rightarrow> RlVector2 \<Rightarrow> RlVector2 \<Rightarrow> bool" where
  "RL_CheckCollisionPointTriangle point p1 p2 p3 =
     (let collision = False;
          alpha = ((vec_y p2 - vec_y p3)*(vec_x point - vec_x p3)
                    + (vec_x p3 - vec_x p2)*(vec_y point - vec_y p3)) /
                  ((vec_y p2 - vec_y p3)*(vec_x p1 - vec_x p3)
                    + (vec_x p3 - vec_x p2)*(vec_y p1 - vec_y p3));
          beta = ((vec_y p3 - vec_y p1)*(vec_x point - vec_x p3)
                   + (vec_x p1 - vec_x p3)*(vec_y point - vec_y p3)) /
                 ((vec_y p2 - vec_y p3)*(vec_x p1 - vec_x p3)
                   + (vec_x p3 - vec_x p2)*(vec_y p1 - vec_y p3));
          gamma = Fin 1 - alpha - beta
      in if (alpha > Fin 0) \<and> (beta > Fin 0) \<and> (gamma > Fin 0) then True else collision)"

text \<open>
  The three coordinates as the code computes them, each operation rounded, and the
  denominator of the first two.
\<close>

definition triangle_det :: "RlVector2 \<Rightarrow> RlVector2 \<Rightarrow> RlVector2 \<Rightarrow> float32" where
  "triangle_det p1 p2 p3 =
     (vec_y p2 - vec_y p3)*(vec_x p1 - vec_x p3) + (vec_x p3 - vec_x p2)*(vec_y p1 - vec_y p3)"

definition triangle_alpha :: "RlVector2 \<Rightarrow> RlVector2 \<Rightarrow> RlVector2 \<Rightarrow> RlVector2 \<Rightarrow> float32" where
  "triangle_alpha point p1 p2 p3 =
     ((vec_y p2 - vec_y p3)*(vec_x point - vec_x p3)
        + (vec_x p3 - vec_x p2)*(vec_y point - vec_y p3)) / triangle_det p1 p2 p3"

definition triangle_beta :: "RlVector2 \<Rightarrow> RlVector2 \<Rightarrow> RlVector2 \<Rightarrow> RlVector2 \<Rightarrow> float32" where
  "triangle_beta point p1 p2 p3 =
     ((vec_y p3 - vec_y p1)*(vec_x point - vec_x p3)
        + (vec_x p1 - vec_x p3)*(vec_y point - vec_y p3)) / triangle_det p1 p2 p3"

definition triangle_gamma :: "RlVector2 \<Rightarrow> RlVector2 \<Rightarrow> RlVector2 \<Rightarrow> RlVector2 \<Rightarrow> float32" where
  "triangle_gamma point p1 p2 p3 =
     Fin 1 - triangle_alpha point p1 p2 p3 - triangle_beta point p1 p2 p3"

text \<open>
  The barycentric coordinates of a point, in exact arithmetic: \<open>a\<close>, \<open>b\<close> and \<open>c\<close> are
  those of \<open>point\<close> in the triangle \<open>p1\<close>, \<open>p2\<close>, \<open>p3\<close> when they add up to 1 and
  \<open>point = a*p1 + b*p2 + c*p3\<close>.
\<close>

definition barycentric ::
  "RlVector2 \<Rightarrow> RlVector2 \<Rightarrow> RlVector2 \<Rightarrow> RlVector2 \<Rightarrow> real \<Rightarrow> real \<Rightarrow> real \<Rightarrow> bool" where
  "barycentric point p1 p2 p3 a b c \<longleftrightarrow>
     a + b + c = 1
     \<and> val (vec_x point) = a*val (vec_x p1) + b*val (vec_x p2) + c*val (vec_x p3)
     \<and> val (vec_y point) = a*val (vec_y p1) + b*val (vec_y p2) + c*val (vec_y p3)"

text \<open>
  \<^verbatim>\<open>RL_CheckCollisionPointPoly\<close>: check if point is within a polygon described by an
  array of vertices. The array is a list; the C function is also given \<open>pointCount\<close> and
  reads \<open>points[i]\<close> and \<open>points[i + 1]\<close> for \<open>i < pointCount - 1\<close>, so a \<open>pointCount\<close> beyond
  the array reads out of bounds: \<open>None\<close>. The loop body runs \<open>n\<close> more times from index
  \<open>i\<close>.
\<close>

fun CheckCollisionPointPoly_loop ::
  "RlVector2 \<Rightarrow> RlVector2 list \<Rightarrow> nat \<Rightarrow> nat \<Rightarrow> bool \<Rightarrow> bool option" where
  "CheckCollisionPointPoly_loop point points 0 i collision = Some collision"
| "CheckCollisionPointPoly_loop point points (Suc n) i collision =
     (if i + 1 < length points then
        let vc = points ! i;
            vn = points ! (i + 1)
        in CheckCollisionPointPoly_loop point points n (i + 1)
             (if (((vec_y vc \<ge> vec_y point) \<and> (vec_y vn < vec_y point))
                  \<or> ((vec_y vc < vec_y point) \<and> (vec_y vn \<ge> vec_y point)))
                 \<and> (vec_x point < ((vec_x vn - vec_x vc)*(vec_y point - vec_y vc)/(vec_y vn - vec_y vc) + vec_x vc))
              then \<not> collision else collision)
      else None)"

definition RL_CheckCollisionPointPoly :: "RlVector2 \<Rightarrow> RlVector2 list \<Rightarrow> int \<Rightarrow> bool option" where
  "RL_CheckCollisionPointPoly point points pointCount =
     (let collision = False in
      if pointCount > 2
      then CheckCollisionPointPoly_loop point points (nat (pointCount - 1)) 0 collision
      else Some collision)"

text \<open>
  The test of one loop iteration: the edge from \<open>vc\<close> to \<open>vn\<close> straddles the point's
  \<open>y\<close>, and the point is left of where the edge crosses that height.
\<close>

definition edge_toggles :: "RlVector2 \<Rightarrow> RlVector2 \<Rightarrow> RlVector2 \<Rightarrow> bool" where
  "edge_toggles point vc vn \<longleftrightarrow>
     ((vec_y vn < vec_y point \<and> vec_y point \<le> vec_y vc)
        \<or> (vec_y vc < vec_y point \<and> vec_y point \<le> vec_y vn))
     \<and> vec_x point < (vec_x vn - vec_x vc)*(vec_y point - vec_y vc)/(vec_y vn - vec_y vc) + vec_x vc"

text \<open>
  \<^verbatim>\<open>RL_CheckCollisionCircleRec\<close>: check collision between circle and rectangle. The
  rectangle's centre is converted to \<^verbatim>\<open>int\<close> and back to \<^verbatim>\<open>float\<close>.
\<close>

definition RL_CheckCollisionCircleRec :: "RlVector2 \<Rightarrow> float32 \<Rightarrow> RlRectangle \<Rightarrow> bool option" where
  "RL_CheckCollisionCircleRec center radius rec =
     (case int_of_float (rec_x rec + rec_width rec/Fin 2) of
        None \<Rightarrow> None
      | Some recCenterX \<Rightarrow>
     (case int_of_float (rec_y rec + rec_height rec/Fin 2) of
        None \<Rightarrow> None
      | Some recCenterY \<Rightarrow>
        let dx = fabsf (vec_x center - float_of_int recCenterX);
            dy = fabsf (vec_y center - float_of_int recCenterY)
        in if dx > (rec_width rec/Fin 2 + radius) then Some False
           else if dy > (rec_height rec/Fin 2 + radius) then Some False
           else if dx \<le> (rec_width rec/Fin 2) then Some True
           else if dy \<le> (rec_height rec/Fin 2) then Some True
           else
             let cornerDistanceSq = (dx - rec_width rec/Fin 2)*(dx - rec_width rec/Fin 2)
                                  + (dy - rec_height rec/Fin 2)*(dy - rec_height rec/Fin 2)
             in Some (cornerDistanceSq \<le> (radius*radius))))"

text \<open>
  The squared distance, in exact arithmetic, from a point to the closest point of a
  rectangle of non-negative width and height: the distance to the rectangle's centre,
  clamped by the half-extents on each axis. It is what the circle-rectangle test is
  meant to compare with the squared radius.
\<close>

definition closest_distance_sq :: "RlVector2 \<Rightarrow> RlRectangle \<Rightarrow> real" where
  "closest_distance_sq center rec =
     (max 0 (\<bar>val (vec_x center) - (val (rec_x rec) + val (rec_width rec)/2)\<bar> - val (rec_width rec)/2))\<^sup>2
   + (max 0 (\<bar>val (vec_y center) - (val (rec_y rec) + val (rec_height rec)/2)\<bar> - val (rec_height rec)/2))\<^sup>2"

section \<open>The shapes texture\<close>

text \<open>
  The two globals \<^verbatim>\<open>texShapes\<close> and \<^verbatim>\<open>texShapesRec\<close>, which only \<^verbatim>\<open>SetShapesTexture\<close>
  writes, are the state; \<open>shapes_init\<close> is their initialisers.
\<close>

record shapes_state =
  texShapes :: RlTexture
  texShapesRec :: RlRectangle

definition shapes_init :: shapes_state where
  "shapes_init =
     \<lparr>texShapes = \<lparr>tex_id = 1, tex_width = 1, tex_height = 1, tex_mipmaps = 1, tex_format = 7\<rparr>,
      texShapesRec = \<lparr>rec_x = Fin 0, rec_y = Fin 0, rec_width = Fin 1, rec_height = Fin 1\<rparr>\<rparr>"

definition SetShapesTexture :: "RlTexture \<Rightarrow> RlRectangle \<Rightarrow> shapes_state \<Rightarrow> shapes_state" where
  "SetShapesTexture texture source st =
     (if (tex_id texture = 0) \<or> feq (rec_width source) (Fin 0) \<or> feq (rec_height source) (Fin 0)
      then st\<lparr>texShapes := \<lparr>tex_id = 1, tex_width = 1, tex_height = 1,
                              tex_mipmaps = 1, tex_format = 7\<rparr>,
              texShapesRec := \<lparr>rec_x = Fin 0, rec_y = Fin 0, rec_width = Fin 1, rec_height = Fin 1\<rparr>\<rparr>
      else st\<lparr>texShapes := texture, texShapesRec := source\<rparr>)"

text \<open>A sequence of calls of \<^verbatim>\<open>SetShapesTexture\<close>, each with its two arguments.\<close>

fun SetShapesTexture_calls :: "(RlTexture \<times> RlRectangle) list \<Rightarrow> shapes_state \<Rightarrow> shapes_state" where
  "SetShapesTexture_calls [] st = st"
| "SetShapesTexture_calls ((texture, source) # calls) st =
     SetShapesTexture_calls calls (SetShapesTexture texture source st)"

text \<open>A binding is valid when its texture id and its rectangle's width and height are not zero.\<close>

definition shapes_valid :: "shapes_state \<Rightarrow> bool" where
  "shapes_valid st \<longleftrightarrow>
     tex_id (texShapes st) \<noteq> 0 \<and> rec_width (texShapesRec st) \<noteq> Fin 0
     \<and> rec_height (texShapesRec st) \<noteq> Fin 0"

section \<open>Drawing: the rlgl calls\<close>

text \<open>
  The drawing functions return nothing; what they do is call the rlgl backend. The
  model returns the calls in order. A drawing function's result is \<open>None\<close> when the C
  code converts a NaN, an infinite or too large a float to \<^verbatim>\<open>int\<close> (undefined
  behaviour).
\<close>

datatype rl_mode = RLGL_LINES | RLGL_TRIANGLES | RLGL_QUADS

datatype rl_call =
    rlSetTexture "32 word"
  | rlBegin rl_mode
  | rlEnd
  | rlColor4ub "8 word" "8 word" "8 word" "8 word"
  | rlTexCoord2f float32 float32
  | rlVertex2f float32 float32

text \<open>The vertices among the calls, in order.\<close>

fun vertices :: "rl_call list \<Rightarrow> (float32 \<times> float32) list" where
  "vertices [] = []"
| "vertices (rlVertex2f vx vy # calls) = (vx, vy) # vertices calls"
| "vertices (_ # calls) = vertices calls"

definition SMOOTH_CIRCLE_ERROR_RATE :: float32 where
  "SMOOTH_CIRCLE_ERROR_RATE = Fin (1/2)"

definition BEZIER_LINE_DIVISIONS :: nat where
  "BEZIER_LINE_DIVISIONS = 24"

text \<open>\<^verbatim>\<open>#define PI 3.14159265358979323846f\<close> and \<^verbatim>\<open>#define DEG2RAD (PI/180.0f)\<close>\<close>

definition PI :: float32 where
  "PI = round32 (314159265358979323846/100000000000000000000)"

definition DEG2RAD :: float32 where
  "DEG2RAD = PI/Fin 180"

subsection \<open>Segments of an arc\<close>

text \<open>
  \<^verbatim>\<open>RL_DrawCircleSector\<close> and \<^verbatim>\<open>RL_DrawRing\<close> hold the same block, word for word but
  for the name of the radius, which sets \<open>minSegments\<close> and replaces a \<open>segments\<close> below
  it. Here it is once.
\<close>

definition arc_minSegments :: "float32 \<Rightarrow> float32 \<Rightarrow> int option" where
  "arc_minSegments startAngle endAngle =
     int_of_float (ceilf ((endAngle - startAngle)/Fin 90))"

text \<open>\<^verbatim>\<open>ceilf(2*PI/th)\<close>, the number of segments of a full turn that the error rate asks for.\<close>

definition arc_turn_segments :: "libm \<Rightarrow> float32 \<Rightarrow> float32" where
  "arc_turn_segments lm radius =
     (let th = acosf lm (Fin 2*powf lm (Fin 1 - SMOOTH_CIRCLE_ERROR_RATE/radius) (Fin 2) - Fin 1)
      in ceilf (Fin 2*PI/th))"

text \<open>\<^verbatim>\<open>(int)((endAngle - startAngle)*ceilf(2*PI/th)/360)\<close>\<close>

definition arc_error_segments :: "libm \<Rightarrow> float32 \<Rightarrow> float32 \<Rightarrow> float32 \<Rightarrow> int option" where
  "arc_error_segments lm radius startAngle endAngle =
     int_of_float ((endAngle - startAngle)*arc_turn_segments lm radius/Fin 360)"

definition arc_segments :: "libm \<Rightarrow> float32 \<Rightarrow> float32 \<Rightarrow> float32 \<Rightarrow> int \<Rightarrow> int option" where
  "arc_segments lm radius startAngle endAngle segments =
     (case arc_minSegments startAngle endAngle of
        None \<Rightarrow> None
      | Some minSegments \<Rightarrow>
          if segments < minSegments then
            (case arc_error_segments lm radius startAngle endAngle of
               None \<Rightarrow> None
             | Some segments' \<Rightarrow>
                 if segments' \<le> 0 then Some minSegments else Some segments')
          else Some segments)"

subsection \<open>Texture coordinates of the shapes texture\<close>

text \<open>
  The four quotients the QUADS paths pass to \<^verbatim>\<open>rlTexCoord2f\<close>. They divide by the
  texture's width and height, converted to \<^verbatim>\<open>float\<close>.
\<close>

definition tex_left :: "shapes_state \<Rightarrow> float32" where
  "tex_left st = rec_x (texShapesRec st)/float_of_int (tex_width (texShapes st))"

definition tex_right :: "shapes_state \<Rightarrow> float32" where
  "tex_right st =
     (rec_x (texShapesRec st) + rec_width (texShapesRec st))/float_of_int (tex_width (texShapes st))"

definition tex_top :: "shapes_state \<Rightarrow> float32" where
  "tex_top st = rec_y (texShapesRec st)/float_of_int (tex_height (texShapes st))"

definition tex_bottom :: "shapes_state \<Rightarrow> float32" where
  "tex_bottom st =
     (rec_y (texShapesRec st) + rec_height (texShapesRec st))/float_of_int (tex_height (texShapes st))"

text \<open>
  \<^verbatim>\<open>rlVertex2f(center.x + cosf(DEG2RAD*angle)*radius, center.y + sinf(DEG2RAD*angle)*radius)\<close>
\<close>

definition arc_vertex :: "libm \<Rightarrow> RlVector2 \<Rightarrow> float32 \<Rightarrow> float32 \<Rightarrow> rl_call" where
  "arc_vertex lm center angle radius =
     rlVertex2f (vec_x center + cosf lm (DEG2RAD*angle)*radius)
                (vec_y center + sinf lm (DEG2RAD*angle)*radius)"

definition color_call :: "RlColor \<Rightarrow> rl_call" where
  "color_call color = rlColor4ub (col_r color) (col_g color) (col_b color) (col_a color)"

subsection \<open>\<^verbatim>\<open>RL_DrawCircleSector\<close>: draw a piece of a circle\<close>

text \<open>
  The loops run \<open>n\<close> more times from \<open>angle\<close>; they return the calls and the angle they
  end with. Every QUAD is two segments.
\<close>

fun CircleSector_quads ::
  "libm \<Rightarrow> shapes_state \<Rightarrow> RlVector2 \<Rightarrow> float32 \<Rightarrow> float32 \<Rightarrow> RlColor \<Rightarrow> nat \<Rightarrow> float32
     \<Rightarrow> rl_call list \<times> float32" where
  "CircleSector_quads lm st center radius stepLength color 0 angle = ([], angle)"
| "CircleSector_quads lm st center radius stepLength color (Suc n) angle =
     (let rest = CircleSector_quads lm st center radius stepLength color n (angle + (stepLength*Fin 2))
      in ([color_call color,
           rlTexCoord2f (tex_left st) (tex_top st),
           rlVertex2f (vec_x center) (vec_y center),
           rlTexCoord2f (tex_right st) (tex_top st),
           arc_vertex lm center (angle + stepLength*Fin 2) radius,
           rlTexCoord2f (tex_right st) (tex_bottom st),
           arc_vertex lm center (angle + stepLength) radius,
           rlTexCoord2f (tex_left st) (tex_bottom st),
           arc_vertex lm center angle radius] @ fst rest, snd rest))"

text \<open>In case the number of segments is odd, one last piece is added.\<close>

definition CircleSector_last_piece ::
  "libm \<Rightarrow> shapes_state \<Rightarrow> RlVector2 \<Rightarrow> float32 \<Rightarrow> float32 \<Rightarrow> RlColor \<Rightarrow> float32 \<Rightarrow> rl_call list" where
  "CircleSector_last_piece lm st center radius stepLength color angle =
     [color_call color,
      rlTexCoord2f (tex_left st) (tex_top st),
      rlVertex2f (vec_x center) (vec_y center),
      rlTexCoord2f (tex_right st) (tex_bottom st),
      arc_vertex lm center (angle + stepLength) radius,
      rlTexCoord2f (tex_left st) (tex_bottom st),
      arc_vertex lm center angle radius,
      rlTexCoord2f (tex_right st) (tex_top st),
      rlVertex2f (vec_x center) (vec_y center)]"

fun CircleSector_triangles ::
  "libm \<Rightarrow> RlVector2 \<Rightarrow> float32 \<Rightarrow> float32 \<Rightarrow> RlColor \<Rightarrow> nat \<Rightarrow> float32 \<Rightarrow> rl_call list" where
  "CircleSector_triangles lm center radius stepLength color 0 angle = []"
| "CircleSector_triangles lm center radius stepLength color (Suc n) angle =
     [color_call color,
      rlVertex2f (vec_x center) (vec_y center),
      arc_vertex lm center (angle + stepLength) radius,
      arc_vertex lm center angle radius]
     @ CircleSector_triangles lm center radius stepLength color n (angle + stepLength)"

text \<open>
  \<open>stepLength\<close> divides by \<open>segments\<close>, converted to \<^verbatim>\<open>float\<close>. A loop \<^verbatim>\<open>for (i = 0; i < n; i++)\<close>
  runs \<open>nat n\<close> times; \<^verbatim>\<open>segments/2\<close> and \<^verbatim>\<open>segments%2\<close> truncate towards zero in C, and
  \<open>nat (segments div 2)\<close> and \<open>segments mod 2 \<noteq> 0\<close> are the number of runs and the test
  for every \<open>segments\<close>.
\<close>

definition RL_DrawCircleSector ::
  "libm \<Rightarrow> bool \<Rightarrow> shapes_state \<Rightarrow> RlVector2 \<Rightarrow> float32 \<Rightarrow> float32 \<Rightarrow> float32 \<Rightarrow> int \<Rightarrow> RlColor
     \<Rightarrow> rl_call list option" where
  "RL_DrawCircleSector lm quads st center radius0 startAngle0 endAngle0 segments0 color =
     (let radius = (if radius0 \<le> Fin 0 then round32 (1/10) else radius0);
          startAngle = (if endAngle0 < startAngle0 then endAngle0 else startAngle0);
          endAngle = (if endAngle0 < startAngle0 then startAngle0 else endAngle0)
      in case arc_segments lm radius startAngle endAngle segments0 of
           None \<Rightarrow> None
         | Some segments \<Rightarrow>
             let stepLength = (endAngle - startAngle)/float_of_int segments;
                 angle = startAngle
             in if quads then
                  let loop = CircleSector_quads lm st center radius stepLength color
                               (nat (segments div 2)) angle
                  in Some ([rlSetTexture (tex_id (texShapes st)), rlBegin RLGL_QUADS]
                           @ fst loop
                           @ (if segments mod 2 \<noteq> 0
                              then CircleSector_last_piece lm st center radius stepLength color (snd loop)
                              else [])
                           @ [rlEnd, rlSetTexture 0])
                else
                  Some ([rlBegin RLGL_TRIANGLES]
                        @ CircleSector_triangles lm center radius stepLength color (nat segments) angle
                        @ [rlEnd]))"

text \<open>
  The number of segments \<^verbatim>\<open>RL_DrawCircleSector\<close> walks the arc with, the \<open>minSegments\<close>
  it computes and the number of segments of a full turn it derives from the error rate.
\<close>

definition CircleSector_segments :: "libm \<Rightarrow> float32 \<Rightarrow> float32 \<Rightarrow> float32 \<Rightarrow> int \<Rightarrow> int option" where
  "CircleSector_segments lm radius0 startAngle0 endAngle0 segments0 =
     (let radius = (if radius0 \<le> Fin 0 then round32 (1/10) else radius0);
          startAngle = (if endAngle0 < startAngle0 then endAngle0 else startAngle0);
          endAngle = (if endAngle0 < startAngle0 then startAngle0 else endAngle0)
      in arc_segments lm radius startAngle endAngle segments0)"

definition CircleSector_minSegments :: "float32 \<Rightarrow> float32 \<Rightarrow> int option" where
  "CircleSector_minSegments startAngle0 endAngle0 =
     (let startAngle = (if endAngle0 < startAngle0 then endAngle0 else startAngle0);
          endAngle = (if endAngle0 < startAngle0 then startAngle0 else endAngle0)
      in arc_minSegments startAngle endAngle)"

definition CircleSector_error_segments :: "libm \<Rightarrow> float32 \<Rightarrow> float32 \<Rightarrow> float32 \<Rightarrow> int option" where
  "CircleSector_error_segments lm radius0 startAngle0 endAngle0 =
     (let radius = (if radius0 \<le> Fin 0 then round32 (1/10) else radius0);
          startAngle = (if endAngle0 < startAngle0 then endAngle0 else startAngle0);
          endAngle = (if endAngle0 < startAngle0 then startAngle0 else endAngle0)
      in arc_error_segments lm radius startAngle endAngle)"

definition CircleSector_turn_segments :: "libm \<Rightarrow> float32 \<Rightarrow> float32" where
  "CircleSector_turn_segments lm radius0 =
     arc_turn_segments lm (if radius0 \<le> Fin 0 then round32 (1/10) else radius0)"

subsection \<open>\<^verbatim>\<open>RL_DrawRing\<close>: draw ring\<close>

fun Ring_quads ::
  "libm \<Rightarrow> shapes_state \<Rightarrow> RlVector2 \<Rightarrow> float32 \<Rightarrow> float32 \<Rightarrow> float32 \<Rightarrow> RlColor \<Rightarrow> nat \<Rightarrow> float32
     \<Rightarrow> rl_call list" where
  "Ring_quads lm st center innerRadius outerRadius stepLength color 0 angle = []"
| "Ring_quads lm st center innerRadius outerRadius stepLength color (Suc n) angle =
     [color_call color,
      rlTexCoord2f (tex_left st) (tex_bottom st),
      arc_vertex lm center angle outerRadius,
      rlTexCoord2f (tex_left st) (tex_top st),
      arc_vertex lm center angle innerRadius,
      rlTexCoord2f (tex_right st) (tex_top st),
      arc_vertex lm center (angle + stepLength) innerRadius,
      rlTexCoord2f (tex_right st) (tex_bottom st),
      arc_vertex lm center (angle + stepLength) outerRadius]
     @ Ring_quads lm st center innerRadius outerRadius stepLength color n (angle + stepLength)"

fun Ring_triangles ::
  "libm \<Rightarrow> RlVector2 \<Rightarrow> float32 \<Rightarrow> float32 \<Rightarrow> float32 \<Rightarrow> RlColor \<Rightarrow> nat \<Rightarrow> float32 \<Rightarrow> rl_call list" where
  "Ring_triangles lm center innerRadius outerRadius stepLength color 0 angle = []"
| "Ring_triangles lm center innerRadius outerRadius stepLength color (Suc n) angle =
     [color_call color,
      arc_vertex lm center angle innerRadius,
      arc_vertex lm center (angle + stepLength) innerRadius,
      arc_vertex lm center angle outerRadius,
      arc_vertex lm center (angle + stepLength) innerRadius,
      arc_vertex lm center (angle + stepLength) outerRadius,
      arc_vertex lm center angle outerRadius]
     @ Ring_triangles lm center innerRadius outerRadius stepLength color n (angle + stepLength)"

definition RL_DrawRing ::
  "libm \<Rightarrow> bool \<Rightarrow> shapes_state \<Rightarrow> RlVector2 \<Rightarrow> float32 \<Rightarrow> float32 \<Rightarrow> float32 \<Rightarrow> float32 \<Rightarrow> int \<Rightarrow> RlColor
     \<Rightarrow> rl_call list option" where
  "RL_DrawRing lm quads st center innerRadius0 outerRadius0 startAngle0 endAngle0 segments0 color =
     (if feq startAngle0 endAngle0 then Some []
      else
        let innerRadius = (if outerRadius0 < innerRadius0 then outerRadius0 else innerRadius0);
            outerRadius = (if outerRadius0 < innerRadius0
                           then (if innerRadius0 \<le> Fin 0 then round32 (1/10) else innerRadius0)
                           else outerRadius0);
            startAngle = (if endAngle0 < startAngle0 then endAngle0 else startAngle0);
            endAngle = (if endAngle0 < startAngle0 then startAngle0 else endAngle0)
        in case arc_segments lm outerRadius startAngle endAngle segments0 of
             None \<Rightarrow> None
           | Some segments \<Rightarrow>
               if innerRadius \<le> Fin 0
               then RL_DrawCircleSector lm quads st center outerRadius startAngle endAngle segments color
               else
                 let stepLength = (endAngle - startAngle)/float_of_int segments;
                     angle = startAngle
                 in if quads then
                      Some ([rlSetTexture (tex_id (texShapes st)), rlBegin RLGL_QUADS]
                            @ Ring_quads lm st center innerRadius outerRadius stepLength color
                                (nat segments) angle
                            @ [rlEnd, rlSetTexture 0])
                    else
                      Some ([rlBegin RLGL_TRIANGLES]
                            @ Ring_triangles lm center innerRadius outerRadius stepLength color
                                (nat segments) angle
                            @ [rlEnd]))"

subsection \<open>\<^verbatim>\<open>RL_DrawTriangleStrip\<close>: draw a triangle strip defined by points\<close>



subsection \<open>\<^verbatim>\<open>RL_DrawLineBezierQuad\<close>: draw line using quadratic bezier curves with a control point\<close>

text \<open>
  The sample of the curve that the loop body computes for the index \<open>i\<close>.
\<close>

definition LineBezierQuad_current :: "libm \<Rightarrow> RlVector2 \<Rightarrow> RlVector2 \<Rightarrow> RlVector2 \<Rightarrow> nat \<Rightarrow> RlVector2" where
  "LineBezierQuad_current lm startPos endPos controlPos i =
     (let step = Fin 1/float_of_int (int BEZIER_LINE_DIVISIONS);
          t = step*float_of_int (int i);
          a = powf lm (Fin 1 - t) (Fin 2);
          b = Fin 2*(Fin 1 - t)*t;
          c = powf lm t (Fin 2)
      in \<lparr>vec_x = a*vec_x startPos + b*vec_x controlPos + c*vec_x endPos,
          vec_y = a*vec_y startPos + b*vec_y controlPos + c*vec_y endPos\<rparr>)"

text \<open>
  One run of the loop body, for the index \<open>i\<close>: from \<open>previous\<close> and the array \<open>points\<close>
  to \<open>current\<close> and the array with the two rim points of \<open>current\<close> written at \<open>2*i\<close> and
  \<open>2*i + 1\<close> (and, when \<open>i\<close> is 1, the two rim points of \<open>previous\<close> at 0 and 1). When
  \<open>current\<close> and \<open>previous\<close> coincide, \<open>size\<close> is a quotient by zero, infinite or NaN, and
  the rim points written are NaN. A write beyond the array is \<open>None\<close>.
\<close>

definition LineBezierQuad_body ::
  "libm \<Rightarrow> RlVector2 \<Rightarrow> RlVector2 \<Rightarrow> RlVector2 \<Rightarrow> float32 \<Rightarrow> nat \<Rightarrow> RlVector2 \<Rightarrow> RlVector2 list
     \<Rightarrow> (RlVector2 \<times> RlVector2 list) option" where
  "LineBezierQuad_body lm startPos endPos controlPos thick i previous points =
     (let current = LineBezierQuad_current lm startPos endPos controlPos i;
          dy = vec_y current - vec_y previous;
          dx = vec_x current - vec_x previous;
          size = Fin (1/2)*thick/sqrtf (dx*dx + dy*dy)
      in if length points \<le> 2*i + 1 then None
         else
           let points1 = (if i = 1
                          then points[0 := \<lparr>vec_x = vec_x previous + dy*size,
                                             vec_y = vec_y previous - dx*size\<rparr>,
                                      1 := \<lparr>vec_x = vec_x previous - dy*size,
                                             vec_y = vec_y previous + dx*size\<rparr>]
                          else points);
               points2 = points1[2*i + 1 := \<lparr>vec_x = vec_x current - dy*size,
                                               vec_y = vec_y current + dx*size\<rparr>,
                                 2*i := \<lparr>vec_x = vec_x current + dy*size,
                                           vec_y = vec_y current - dx*size\<rparr>]
           in Some (current, points2))"

text \<open>The loop: \<open>n\<close> more runs of the body, from the index \<open>i\<close>.\<close>

fun LineBezierQuad_loop ::
  "libm \<Rightarrow> RlVector2 \<Rightarrow> RlVector2 \<Rightarrow> RlVector2 \<Rightarrow> float32 \<Rightarrow> nat \<Rightarrow> nat \<Rightarrow> RlVector2 \<Rightarrow> RlVector2 list
     \<Rightarrow> (RlVector2 \<times> RlVector2 list) option" where
  "LineBezierQuad_loop lm startPos endPos controlPos thick 0 i previous points =
     Some (previous, points)"
| "LineBezierQuad_loop lm startPos endPos controlPos thick (Suc n) i previous points =
     (case LineBezierQuad_body lm startPos endPos controlPos thick i previous points of
        None \<Rightarrow> None
      | Some (current, points') \<Rightarrow>
          LineBezierQuad_loop lm startPos endPos controlPos thick n (i + 1) current points')"

text \<open>The array \<open>points\<close> that \<^verbatim>\<open>RL_DrawLineBezierQuad\<close> hands to \<^verbatim>\<open>RL_DrawTriangleStrip\<close>.\<close>

definition LineBezierQuad_points ::
  "libm \<Rightarrow> RlVector2 \<Rightarrow> RlVector2 \<Rightarrow> RlVector2 \<Rightarrow> float32 \<Rightarrow> RlVector2 list option" where
  "LineBezierQuad_points lm startPos endPos controlPos thick =
     map_option snd
       (LineBezierQuad_loop lm startPos endPos controlPos thick BEZIER_LINE_DIVISIONS 1 startPos
          (replicate (2*BEZIER_LINE_DIVISIONS + 2) \<lparr>vec_x = Fin 0, vec_y = Fin 0\<rparr>))"



text \<open>
  The two rim points that the loop body computes around a point \<open>q\<close>, which is \<open>previous\<close>
  or \<open>current\<close>: \<open>(q.x + dy*size, q.y - dx*size)\<close>, written at an even index, and
  \<open>(q.x - dy*size, q.y + dx*size)\<close>, written at an odd one.
\<close>

definition rim_even :: "RlVector2 \<Rightarrow> RlVector2 \<Rightarrow> RlVector2 \<Rightarrow> float32 \<Rightarrow> RlVector2" where
  "rim_even q previous current thick =
     (let dy = vec_y current - vec_y previous;
          dx = vec_x current - vec_x previous;
          size = Fin (1/2)*thick/sqrtf (dx*dx + dy*dy)
      in \<lparr>vec_x = vec_x q + dy*size, vec_y = vec_y q - dx*size\<rparr>)"

definition rim_odd :: "RlVector2 \<Rightarrow> RlVector2 \<Rightarrow> RlVector2 \<Rightarrow> float32 \<Rightarrow> RlVector2" where
  "rim_odd q previous current thick =
     (let dy = vec_y current - vec_y previous;
          dx = vec_x current - vec_x previous;
          size = Fin (1/2)*thick/sqrtf (dx*dx + dy*dy)
      in \<lparr>vec_x = vec_x q - dy*size, vec_y = vec_y q + dx*size\<rparr>)"



section \<open>Properties of rounding\<close>

lemma round_even_of_int [simp]: "round_even (of_int n) = n"
  by (simp add: round_even_def)

lemma round_even_le: "q \<le> of_int n \<Longrightarrow> round_even q \<le> n"
proof -
  assume q: "q \<le> of_int n"
  have fl: "\<lfloor>q\<rfloor> \<le> n" using q by (simp add: floor_le_iff)
  show ?thesis
  proof (cases "\<lfloor>q\<rfloor> = n")
    case True
    then have "q = of_int n" using q by linarith
    then show ?thesis by simp
  next
    case False
    then have "\<lfloor>q\<rfloor> + 1 \<le> n" using fl by linarith
    then show ?thesis unfolding round_even_def by auto
  qed
qed

lemma round_even_ge: "of_int n \<le> q \<Longrightarrow> n \<le> round_even q"
proof -
  assume "of_int n \<le> q"
  then have "n \<le> \<lfloor>q\<rfloor>" by (simp add: le_floor_iff)
  then show ?thesis unfolding round_even_def by auto
qed

lemma round_even_minus: "round_even (- q) = - round_even q"
proof (cases "q = of_int \<lfloor>q\<rfloor>")
  case True
  then obtain n where "q = of_int n" by metis
  then show ?thesis by (simp flip: of_int_minus)
next
  case False
  then have fl: "\<lfloor>- q\<rfloor> = - \<lfloor>q\<rfloor> - 1"
    by (metis ceiling_altdef ceiling_def add_diff_cancel_right' Ints_of_int floor_of_int
        minus_diff_eq uminus_add_conv_diff minus_minus of_int_floor_cancel)
  have ev: "even (- \<lfloor>q\<rfloor> - 1) \<longleftrightarrow> \<not> even \<lfloor>q\<rfloor>" by simp
  show ?thesis unfolding round_even_def fl ev by (auto simp: algebra_simps)
qed

lemma binade_le: "binade a n \<le> n"
  by (induction n) auto

lemma binade_lower: "0 < binade a n \<Longrightarrow> 2^(binade a n + 23) \<le> a*2^149"
  by (induction n) (auto split: if_splits)

lemma binade_upper: "binade a n < n \<Longrightarrow> a*2^149 < 2^(binade a n + 24)"
proof (induction n)
  case 0 then show ?case by simp
next
  case (Suc n)
  show ?case
  proof (cases "2^(Suc n + 23) \<le> a*2^149")
    case True then show ?thesis using Suc.prems by simp
  next
    case False
    then have eq: "binade a (Suc n) = binade a n" by simp
    show ?thesis
    proof (cases "binade a n < n")
      case True then show ?thesis using Suc.IH eq by simp
    next
      case False
      then have "binade a n = n" using binade_le [of a n] by linarith
      then show ?thesis using \<open>\<not> 2^(Suc n + 23) \<le> a*2^149\<close> eq
        by (simp add: add.commute)
    qed
  qed
qed

lemma binade_eqI:
  assumes "k \<le> n" and "k = 0 \<or> 2^(k + 23) \<le> a*2^149" and "k = n \<or> a*2^149 < 2^(k + 24)"
  shows "binade a n = k"
proof (rule ccontr)
  assume ne: "binade a n \<noteq> k"
  let ?b = "binade a n"
  show False
  proof (cases "?b < k")
    case True
    then have "a*2^149 < 2^(?b + 24)" using binade_upper [of a n] assms(1) by simp
    moreover have "2^(k + 23) \<le> a*2^149" using True assms(2) by auto
    moreover have "(2::real)^(?b + 24) \<le> 2^(k + 23)"
      using True by (intro power_increasing) auto
    ultimately show False by linarith
  next
    case False
    then have gt: "k < ?b" using ne by simp
    then have "2^(?b + 23) \<le> a*2^149" using binade_lower [of a n] by simp
    moreover have "a*2^149 < 2^(k + 24)" using gt assms(3) binade_le [of a n] by auto
    moreover have "(2::real)^(k + 24) \<le> 2^(?b + 23)"
      using gt by (intro power_increasing) auto
    ultimately show False by linarith
  qed
qed

lemma nearest32_minus: "nearest32 (- r) = - nearest32 r"
proof -
  have "round_even (- r*2^149/2^k) = - round_even (r*2^149/2^k)" for k :: nat
    using round_even_minus [of "r*2^149/2^k"] by simp
  then show ?thesis
    unfolding nearest32_def by simp
qed

lemma round32_minus: "round32 (- r) = - round32 r"
  unfolding round32_def nearest32_minus by auto

lemma nearest32_exact:
  assumes m: "\<bar>m\<bar> < 2^24" and k: "k \<le> 253"
  shows "nearest32 (of_int m*2^k/2^149) = of_int m*2^k/2^149"
proof -
  define r :: real where "r = of_int m*2^k/2^149"
  define b where "b = binade \<bar>r\<bar> 253"
  have a: "\<bar>r\<bar>*2^149 = of_int \<bar>m\<bar>*2^k"
    unfolding r_def by (simp add: abs_mult del: power_numeral)
  have "of_int \<bar>m\<bar> < (2::real)^24" using m by (metis of_int_less_numeral_power_cancel_iff)
  then have up: "\<bar>r\<bar>*2^149 < 2^(k + 24)"
    unfolding a power_add by (simp add: mult.commute del: power_numeral)
  have bk: "b \<le> k"
  proof (rule ccontr)
    assume "\<not> b \<le> k"
    then have kb: "k < b" by simp
    then have "2^(b + 23) \<le> \<bar>r\<bar>*2^149" unfolding b_def using binade_lower [of "\<bar>r\<bar>" 253] by simp
    moreover have "(2::real)^(k + 24) \<le> 2^(b + 23)" using kb by (intro power_increasing) auto
    ultimately show False using up by linarith
  qed
  have pk: "(2::real)^k = 2^(k - b)*2^b" using bk by (simp flip: power_add)
  have q: "r*2^149/2^b = of_int (m*2^(k - b))"
    unfolding r_def pk by (simp del: power_numeral)
  have "nearest32 r = of_int (m*2^(k - b))*2^b/2^149"
    unfolding nearest32_def b_def [symmetric] q round_even_of_int ..
  also have "\<dots> = r"
    unfolding r_def pk by (simp del: power_numeral)
  finally show ?thesis unfolding r_def .
qed

lemma round32_exact:
  assumes m: "\<bar>m\<bar> < 2^24" and k: "k \<le> 253"
  shows "round32 (of_int m*2^k/2^149) = Fin (of_int m*2^k/2^149)"
proof -
  define r :: real where "r = of_int m*2^k/2^149"
  have "of_int \<bar>m\<bar> < (2::real)^24" using m by (metis of_int_less_numeral_power_cancel_iff)
  then have "\<bar>real_of_int m\<bar> < 2^24" by simp
  moreover have "(2::real)^k \<le> 2^253" using k by (intro power_increasing) auto
  ultimately have "\<bar>real_of_int m\<bar>*2^k < 2^24*2^253"
    by (intro mult_less_le_imp_less) (auto simp del: power_numeral)
  then have "\<bar>r\<bar>*2^149 < 2^128*2^149"
    unfolding r_def by (simp add: abs_mult)
  then have "\<bar>r\<bar> < 2^128" by simp
  then have "\<not> 2^128 \<le> r" "\<not> r \<le> - (2^128)" by linarith+
  moreover have "nearest32 r = r" unfolding r_def by (rule nearest32_exact [OF m k])
  ultimately have "round32 r = Fin r" unfolding round32_def by simp
  then show ?thesis unfolding r_def .
qed

lemma nearest32_eval:
  assumes "k \<le> 253" and "k = 0 \<or> 2^(k + 23) \<le> \<bar>r\<bar>*2^149" and "k = 253 \<or> \<bar>r\<bar>*2^149 < 2^(k + 24)"
    and "round_even (r*2^149/2^k) = m"
  shows "nearest32 r = of_int m*2^k/2^149"
proof -
  have b: "binade \<bar>r\<bar> 253 = k" using assms(1-3) by (rule binade_eqI)
  show ?thesis unfolding nearest32_def b assms(4) ..
qed

lemma round32_eval:
  assumes "k \<le> 253" and "k = 0 \<or> 2^(k + 23) \<le> \<bar>r\<bar>*2^149" and "k = 253 \<or> \<bar>r\<bar>*2^149 < 2^(k + 24)"
    and "round_even (r*2^149/2^k) = m" and "\<bar>of_int m*2^k/2^149\<bar> < (2::real)^128"
  shows "round32 r = Fin (of_int m*2^k/2^149)"
proof -
  have "\<not> 2^128 \<le> of_int m*2^k/(2::real)^149" "\<not> of_int m*2^k/(2::real)^149 \<le> - (2^128)"
    using assms(5) unfolding abs_less_iff by linarith+
  then show ?thesis
    unfolding round32_def nearest32_eval [OF assms(1-4)] by simp
qed

lemma round32_0 [simp]: "round32 0 = Fin 0"
  using round32_exact [of 0 0] by simp

lemma round32_Fin: "round32 r = Fin v \<Longrightarrow> v = nearest32 r \<and> \<bar>v\<bar> < 2^128"
  unfolding round32_def by (auto split: if_splits)

lemma round32_grid:
  assumes "round32 r = Fin v"
  shows "\<exists>j::int. v = of_int j/2^149"
proof -
  let ?m = "round_even (r*2^149/2^(binade \<bar>r\<bar> 253))"
  have "v = of_int ?m*2^(binade \<bar>r\<bar> 253)/2^149"
    using round32_Fin [OF assms] unfolding nearest32_def by simp
  then have "v = of_int (?m*2^(binade \<bar>r\<bar> 253))/2^149" by simp
  then show ?thesis by blast
qed

lemma nearest32_mantissa:
  assumes "binade \<bar>r\<bar> 253 < 253"
  shows "\<bar>round_even (r*2^149/2^(binade \<bar>r\<bar> 253))\<bar> \<le> 2^24"
proof -
  define k where "k = binade \<bar>r\<bar> 253"
  have "\<bar>r\<bar>*2^149 < 2^(k + 24)" unfolding k_def using binade_upper [of "\<bar>r\<bar>" 253] assms by simp
  then have "\<bar>r\<bar>*2^149 < 2^24*2^k" by (simp add: power_add mult.commute del: power_numeral)
  then have "\<bar>r\<bar>*2^149/2^k < 2^24" by (simp add: field_simps del: power_numeral)
  then have "\<bar>r*2^149/2^k\<bar> \<le> 2^24" by (simp add: abs_mult del: power_numeral)
  then have q: "r*2^149/2^k \<le> of_int (2^24)" "of_int (- (2^24)) \<le> r*2^149/2^k"
    unfolding abs_le_iff by simp_all
  have "round_even (r*2^149/2^k) \<le> 2^24"
    using q(1) by (rule round_even_le)
  moreover have "- (2^24) \<le> round_even (r*2^149/2^k)"
    using q(2) by (rule round_even_ge)
  ultimately show ?thesis unfolding k_def by linarith
qed

lemma round32_idem:
  assumes "round32 r = Fin v"
  shows "round32 v = Fin v"
proof -
  define k where "k = binade \<bar>r\<bar> 253"
  define m where "m = round_even (r*2^149/2^k)"
  have v: "v = of_int m*2^k/2^149" and lt: "\<bar>v\<bar> < 2^128"
    using round32_Fin [OF assms] unfolding nearest32_def k_def m_def by simp_all
  have k: "k \<le> 253" unfolding k_def by (rule binade_le)
  have m24: "\<bar>m\<bar> \<le> 2^24"
  proof (cases "k < 253")
    case True
    then show ?thesis unfolding m_def k_def by (rule nearest32_mantissa)
  next
    case False
    then have k253: "k = 253" using k by simp
    have "\<bar>of_int m*2^k/(2::real)^149\<bar> < 2^128" using lt v by simp
    then have "\<bar>real_of_int m\<bar>*2^253/2^149 < 2^128" unfolding k253 by (simp add: abs_mult)
    then have "real_of_int \<bar>m\<bar> < 2^24" by simp
    then have "\<bar>m\<bar> < 2^24" using of_int_less_numeral_power_cancel_iff by blast
    then show ?thesis by simp
  qed
  show ?thesis
  proof (cases "\<bar>m\<bar> < 2^24")
    case True
    then show ?thesis unfolding v using round32_exact [OF True k] by simp
  next
    case False
    then have m: "\<bar>m\<bar> = 2^24" using m24 by linarith
    have k': "k < 253"
    proof (rule ccontr)
      assume "\<not> k < 253"
      then have "k = 253" using k by simp
      then have "\<bar>v\<bar> = 2^24*2^253/2^149" unfolding v using m by (simp add: abs_mult)
      then show False using lt by simp
    qed
    consider "m = 2^24" | "m = - (2^24)" using m by linarith
    then show ?thesis
    proof cases
      case 1
      have "round32 (of_int (2^23)*2^(Suc k)/2^149) = Fin (of_int (2^23)*2^(Suc k)/2^149)"
        using k' by (intro round32_exact) auto
      then show ?thesis unfolding v 1 by simp
    next
      case 2
      have "round32 (of_int (- (2^23))*2^(Suc k)/2^149) = Fin (of_int (- (2^23))*2^(Suc k)/2^149)"
        using k' by (intro round32_exact) auto
      then show ?thesis unfolding v 2 by simp
    qed
  qed
qed

lemma nearest32_pos:
  assumes "1/2^149 \<le> r"
  shows "0 < nearest32 r"
proof -
  define k where "k = binade \<bar>r\<bar> 253"
  have r: "0 < r" using assms by (rule less_le_trans [rotated]) simp
  have r1: "1 \<le> r*2^149" using assms by (simp add: field_simps)
  have q: "1 \<le> r*2^149/2^k"
  proof (cases "k = 0")
    case True then show ?thesis using r1 by simp
  next
    case False
    then have "2^(k + 23) \<le> \<bar>r\<bar>*2^149" unfolding k_def using binade_lower [of "\<bar>r\<bar>" 253] by simp
    then have "2^23*2^k \<le> r*2^149" using r by (simp add: power_add mult.commute del: power_numeral)
    then have "2^23 \<le> r*2^149/2^k" by (simp add: field_simps del: power_numeral)
    moreover have "(1::real) \<le> 2^23" by simp
    ultimately show ?thesis by (rule order_trans [rotated])
  qed
  have "1 \<le> round_even (r*2^149/2^k)" using round_even_ge [of 1 "r*2^149/2^k"] q by simp
  then have "0 < real_of_int (round_even (r*2^149/2^k))" by linarith
  then show ?thesis
    unfolding nearest32_def k_def [symmetric] by (simp del: power_numeral)
qed

lemma nearest32_nonneg:
  assumes "0 \<le> r"
  shows "0 \<le> nearest32 r"
proof -
  define k where "k = binade \<bar>r\<bar> 253"
  have "0 \<le> r*2^149/2^k" using assms by simp
  then have "0 \<le> round_even (r*2^149/2^k)" using round_even_ge [of 0 "r*2^149/2^k"] by simp
  then show ?thesis
    unfolding nearest32_def k_def [symmetric] by (simp del: power_numeral)
qed

lemma round32_pos: "1/2^149 \<le> r \<Longrightarrow> Fin 0 < round32 r"
  using nearest32_pos [of r] unfolding round32_def by auto

lemma round32_nonneg: "0 \<le> r \<Longrightarrow> Fin 0 \<le> round32 r"
  using nearest32_nonneg [of r] unfolding round32_def by auto

lemma binade_mono: "a \<le> a' \<Longrightarrow> binade a n \<le> binade a' n"
proof (induction n)
  case 0 then show ?case by simp
next
  case (Suc n)
  have "binade a' n \<le> n" by (rule binade_le)
  then show ?case using Suc by (auto simp del: power_numeral) (smt (verit) mult_right_mono zero_le_power)
qed

lemma nearest32_nonpos: "r \<le> 0 \<Longrightarrow> nearest32 r \<le> 0"
  using nearest32_nonneg [of "- r"] unfolding nearest32_minus by simp

lemma nearest32_le_nonneg:
  assumes rc: "r \<le> c" and c: "nearest32 c = c" and r: "0 \<le> r"
  shows "nearest32 r \<le> c"
proof -
  define kr where "kr = binade \<bar>r\<bar> 253"
  define kc where "kc = binade \<bar>c\<bar> 253"
  define mc where "mc = round_even (c*2^149/2^kc)"
  have k: "kr \<le> kc" unfolding kr_def kc_def using rc r by (intro binade_mono) simp
  have pk: "(2::real)^kc = 2^(kc - kr)*2^kr" using k by (simp flip: power_add)
  have "c = of_int mc*2^kc/2^149" using c unfolding nearest32_def kc_def mc_def by simp
  then have C: "c*2^149 = of_int (mc*2^(kc - kr))*2^kr" unfolding pk by (simp del: power_numeral)
  have "r*2^149 \<le> c*2^149" using rc by simp
  then have "r*2^149/2^kr \<le> of_int (mc*2^(kc - kr))"
    unfolding C by (simp add: field_simps del: power_numeral)
  then have "round_even (r*2^149/2^kr) \<le> mc*2^(kc - kr)" by (rule round_even_le)
  then have "real_of_int (round_even (r*2^149/2^kr)) \<le> of_int (mc*2^(kc - kr))" by linarith
  then have "real_of_int (round_even (r*2^149/2^kr))*2^kr \<le> of_int (mc*2^(kc - kr))*2^kr"
    by (intro mult_right_mono) auto
  then have "nearest32 r*2^149 \<le> c*2^149"
    unfolding C nearest32_def kr_def [symmetric] by (simp del: power_numeral of_int_mult of_int_power)
  then show ?thesis by simp
qed

lemma nearest32_le_neg:
  assumes rc: "r \<le> c" and c: "nearest32 c = c" and c0: "c < 0"
  shows "nearest32 r \<le> c"
proof -
  define kr where "kr = binade \<bar>r\<bar> 253"
  define kc where "kc = binade \<bar>c\<bar> 253"
  define mc where "mc = round_even (c*2^149/2^kc)"
  have k: "kc \<le> kr" unfolding kr_def kc_def using rc c0 by (intro binade_mono) simp
  have ceq: "c = of_int mc*2^kc/2^149" using c unfolding nearest32_def kc_def mc_def by simp
  show ?thesis
  proof (cases "kr = kc")
    case True
    have C: "c*2^149 = of_int mc*2^kr" unfolding True using ceq by (simp del: power_numeral)
    have "r*2^149 \<le> c*2^149" using rc by simp
    then have "r*2^149/2^kr \<le> of_int mc"
      unfolding C by (simp add: field_simps del: power_numeral)
    then have "round_even (r*2^149/2^kr) \<le> mc" by (rule round_even_le)
    then have "real_of_int (round_even (r*2^149/2^kr)) \<le> of_int mc" by linarith
    then have "real_of_int (round_even (r*2^149/2^kr))*2^kr \<le> of_int mc*2^kr"
      by (intro mult_right_mono) auto
    then have "nearest32 r*2^149 \<le> c*2^149"
      unfolding C nearest32_def kr_def [symmetric] by (simp del: power_numeral)
    then show ?thesis by simp
  next
    case False
    then have lt: "kc < kr" using k by simp
    have r0: "r < 0" using rc c0 by simp
    have "kr \<le> 253" unfolding kr_def by (rule binade_le)
    then have "kc < 253" using lt by simp
    then have "\<bar>c\<bar>*2^149 < 2^(kc + 24)" unfolding kc_def using binade_upper [of "\<bar>c\<bar>" 253] by simp
    then have cl: "- (2^(kc + 24)) < c*2^149" using c0 by (simp del: power_numeral)
    have "2^(kr + 23) \<le> \<bar>r\<bar>*2^149" unfolding kr_def using binade_lower [of "\<bar>r\<bar>" 253] lt kr_def by simp
    then have "r*2^149 \<le> - (2^23*2^kr)" using r0 by (simp add: power_add mult.commute del: power_numeral)
    then have "r*2^149/2^kr \<le> of_int (- (2^23))" by (simp add: field_simps del: power_numeral)
    then have "round_even (r*2^149/2^kr) \<le> - (2^23)" by (rule round_even_le)
    then have "real_of_int (round_even (r*2^149/2^kr)) \<le> of_int (- (2^23))"
      by (rule of_int_le_iff [THEN iffD2])
    then have "real_of_int (round_even (r*2^149/2^kr)) \<le> - (2^23)" by simp
    then have "real_of_int (round_even (r*2^149/2^kr))*2^kr \<le> - (2^23)*2^kr"
      by (intro mult_right_mono) auto
    moreover have "(2::real)^(kc + 24) \<le> 2^(kr + 23)" using lt by (intro power_increasing) auto
    then have "- (2^23)*2^kr \<le> - ((2::real)^(kc + 24))" by (simp add: power_add mult.commute del: power_numeral)
    ultimately have "real_of_int (round_even (r*2^149/2^kr))*2^kr \<le> c*2^149" using cl by linarith
    then have "nearest32 r*2^149 \<le> c*2^149"
      unfolding nearest32_def kr_def [symmetric] by (simp del: power_numeral)
    then show ?thesis by simp
  qed
qed

lemma nearest32_le:
  assumes "r \<le> c" and "nearest32 c = c"
  shows "nearest32 r \<le> c"
proof (cases "0 \<le> r")
  case True then show ?thesis using assms by (intro nearest32_le_nonneg)
next
  case False
  show ?thesis
  proof (cases "c < 0")
    case True then show ?thesis using assms by (intro nearest32_le_neg)
  next
    case c: False
    have "nearest32 r \<le> 0" using False by (intro nearest32_nonpos) simp
    then show ?thesis using c by simp
  qed
qed

lemma nearest32_ge:
  assumes "c \<le> r" and "nearest32 c = c"
  shows "c \<le> nearest32 r"
proof -
  have "nearest32 (- r) \<le> - c"
    using assms by (intro nearest32_le) (simp_all add: nearest32_minus)
  then show ?thesis unfolding nearest32_minus by simp
qed

lemma round32_le:
  assumes "r \<le> c" and "round32 c = Fin c"
  shows "round32 r \<le> Fin c"
proof -
  have c: "nearest32 c = c" "\<bar>c\<bar> < 2^128" using round32_Fin [OF assms(2)] by simp_all
  have "nearest32 r \<le> c" using assms(1) c(1) by (rule nearest32_le)
  then show ?thesis using c(2) unfolding round32_def by auto
qed

lemma round32_ge:
  assumes "c \<le> r" and "round32 c = Fin c"
  shows "Fin c \<le> round32 r"
proof -
  have c: "nearest32 c = c" "\<bar>c\<bar> < 2^128" using round32_Fin [OF assms(2)] by simp_all
  have "c \<le> nearest32 r" using assms(1) c(1) by (rule nearest32_ge)
  then show ?thesis using c(2) unfolding round32_def by auto
qed

section \<open>Evaluating the operations\<close>

lemma round32_dyadic:
  assumes "of_int \<lfloor>r*2^j\<rfloor> = r*2^j" and "\<bar>r\<bar>*2^j < 2^24" and "j \<le> 149"
  shows "round32 r = Fin r"
proof -
  define m where "m = \<lfloor>r*2^j\<rfloor>"
  have r: "r = of_int m/2^j" unfolding m_def assms(1) by simp
  have "\<bar>real_of_int m\<bar> < 2^24" unfolding m_def assms(1) using assms(2) by (simp add: abs_mult)
  then have "real_of_int \<bar>m\<bar> < 2^24" by simp
  then have m: "\<bar>m\<bar> < 2^24" using of_int_less_numeral_power_cancel_iff by blast
  have p: "(2::real)^149 = 2^(149 - j)*2^j" using assms(3) by (simp flip: power_add)
  have "of_int m*2^(149 - j)/2^149 = r" unfolding r p by (simp del: power_numeral)
  then show ?thesis using round32_exact [OF m, of "149 - j"] by simp
qed

lemmas round32_small = round32_dyadic [where j = 0] round32_dyadic [where j = 10]
  round32_dyadic [where j = 20]

lemma is_float_round32: "is_float (round32 r)"
  unfolding is_float_def by (auto split: float32.splits dest: round32_idem)

lemma is_float_plus: "is_float (x + y)"
  by (cases x; cases y) (simp_all add: is_float_round32, simp_all add: is_float_def)

lemma is_finite_Fin: "is_finite x \<longleftrightarrow> (\<exists>a. x = Fin a \<and> round32 a = Fin a)"
  unfolding is_finite_def by (cases x) auto

lemma float_sub_pos:
  assumes x: "is_finite x" and y: "is_float y" and lt: "x < y"
  shows "Fin 0 < y - x"
proof -
  obtain a where a: "x = Fin a" "round32 a = Fin a" using x unfolding is_finite_Fin by blast
  show ?thesis
  proof (cases y)
    case (Fin b)
    then have b: "round32 b = Fin b" using y by (simp add: is_float_def)
    obtain j j' :: int where j: "a = of_int j/2^149" "b = of_int j'/2^149"
      using round32_grid [OF a(2)] round32_grid [OF b] by blast
    have "a < b" using lt a Fin by simp
    then have "real_of_int j < of_int j'" unfolding j by (simp add: divide_strict_right_mono)
    then have "j + 1 \<le> j'" by linarith
    then have "real_of_int j + 1 \<le> of_int j'" by linarith
    then have "1/2^149 \<le> b - a" unfolding j by (simp add: field_simps)
    then have "Fin 0 < round32 (b - a)" by (rule round32_pos)
    then show ?thesis unfolding a Fin minus_float32_def by simp
  next
    case PInf then show ?thesis unfolding a minus_float32_def by simp
  next
    case NInf then show ?thesis using lt a by simp
  next
    case NaN then show ?thesis using lt a by simp
  qed
qed

lemma round_even_pos:
  assumes "1/2 < q"
  shows "1 \<le> round_even q"
proof -
  define n where "n = \<lfloor>q\<rfloor>"
  have n0: "0 \<le> n" unfolding n_def using assms by simp
  have n: "of_int n \<le> q" unfolding n_def by simp
  consider "n = 0" | "1 \<le> n" using n0 by linarith
  then show ?thesis
  proof cases
    case 1
    then have "1/2 < q - of_int n" using assms by simp
    then show ?thesis unfolding round_even_def n_def [symmetric] using 1 by simp
  next
    case 2
    then show ?thesis unfolding round_even_def n_def [symmetric] by simp
  qed
qed

lemma round32_eq_0_iff:
  assumes "0 \<le> r"
  shows "round32 r = Fin 0 \<longleftrightarrow> r \<le> 1/2^150"
proof
  assume le: "r \<le> 1/2^150"
  have "(2::real)^23 = 2^23*1" by simp
  have r: "r*2^149 \<le> 1/2" using le by (simp add: field_simps)
  then have b: "binade \<bar>r\<bar> 253 = 0" using assms by (intro binade_eqI) auto
  have "round_even (r*2^149) = 0"
  proof -
    have "\<lfloor>r*2^149\<rfloor> = 0" using r assms by (simp add: floor_eq_iff)
    then show ?thesis using r unfolding round_even_def by (auto simp del: power_numeral)
  qed
  then have "nearest32 r = 0" unfolding nearest32_def b by simp
  then show "round32 r = Fin 0" unfolding round32_def by simp
next
  assume z: "round32 r = Fin 0"
  show "r \<le> 1/2^150"
  proof (rule ccontr)
    assume "\<not> r \<le> 1/2^150"
    then have gt: "1/2 < r*2^149" by (simp add: field_simps)
    define k where "k = binade \<bar>r\<bar> 253"
    have q: "1/2 < r*2^149/2^k"
    proof (cases "k = 0")
      case True then show ?thesis using gt by simp
    next
      case False
      then have "2^(k + 23) \<le> \<bar>r\<bar>*2^149" unfolding k_def using binade_lower [of "\<bar>r\<bar>" 253] by simp
      then have "2^23*2^k \<le> r*2^149" using assms by (simp add: power_add mult.commute del: power_numeral)
      then have "2^23 \<le> r*2^149/2^k" by (simp add: field_simps del: power_numeral)
      moreover have "(1/2::real) < 2^23" by simp
      ultimately show ?thesis by (rule less_le_trans [rotated])
    qed
    have "1 \<le> round_even (r*2^149/2^k)" using q by (rule round_even_pos)
    then have "0 < real_of_int (round_even (r*2^149/2^k))" by linarith
    then have "0 < nearest32 r" unfolding nearest32_def k_def [symmetric] by (simp del: power_numeral)
    then show False using z unfolding round32_def by (auto split: if_splits)
  qed
qed

section \<open>Properties of the collision queries\<close>

text \<open>
  C10, as stated: \<^verbatim>\<open>RL_CheckCollisionPointRec\<close> returns true if and only if
  \<open>rec.x \<le> p.x < rec.x + rec.width\<close> and \<open>rec.y \<le> p.y < rec.y + rec.height\<close>. It fails
  where the sum \<open>rec.x + rec.width\<close> rounds: the top-left corner \<open>(16777216, 0)\<close> of the
  rectangle \<open>{16777216, 0, 1, 1}\<close> is within these bounds, and the code reports it
  outside, for \<open>16777216 + 1\<close> rounds to \<open>16777216\<close>.
\<close>

theorem CheckCollisionPointRec_rounded_sum:
  "half_open_contains \<lparr>rec_x = Fin 16777216, rec_y = Fin 0, rec_width = Fin 1, rec_height = Fin 1\<rparr>
     \<lparr>vec_x = Fin 16777216, vec_y = Fin 0\<rparr>
   \<and> \<not> RL_CheckCollisionPointRec \<lparr>vec_x = Fin 16777216, vec_y = Fin 0\<rparr>
         \<lparr>rec_x = Fin 16777216, rec_y = Fin 0, rec_width = Fin 1, rec_height = Fin 1\<rparr>
   \<and> is_finite (Fin 16777216) \<and> is_finite (Fin 1) \<and> is_finite (Fin 0)"
proof -
  have "round32 16777217 = Fin 16777216"
    using round32_eval [of 150 16777217 8388608] by (simp add: round_even_def)
  moreover have "round32 16777216 = Fin 16777216"
    using round32_exact [of 8388608 150] by simp
  ultimately show ?thesis
    by (simp add: half_open_contains_def RL_CheckCollisionPointRec_def is_finite_def round32_small)
qed

text \<open>
  C10, amended: \<^verbatim>\<open>RL_CheckCollisionPointRec\<close> returns true if and only if
  \<open>rec.x \<le> p.x < rec.x + rec.width\<close> and \<open>rec.y \<le> p.y < rec.y + rec.height\<close> where the two
  sums are the float sums, rounded to nearest: the left and top edges are inclusive, the
  right and bottom edges, at the rounded sums, exclusive. Where neither sum rounds
  and the point is finite, this is the containment in exact arithmetic.
\<close>

theorem CheckCollisionPointRec_half_open:
  "(RL_CheckCollisionPointRec p rec \<longleftrightarrow>
      rec_x rec \<le> vec_x p \<and> vec_x p < rec_x rec + rec_width rec
      \<and> rec_y rec \<le> vec_y p \<and> vec_y p < rec_y rec + rec_height rec)
   \<and> (is_finite (vec_x p) \<and> is_finite (vec_y p)
      \<and> rec_x rec + rec_width rec = Fin (val (rec_x rec) + val (rec_width rec))
      \<and> rec_y rec + rec_height rec = Fin (val (rec_y rec) + val (rec_height rec))
      \<longrightarrow> (RL_CheckCollisionPointRec p rec \<longleftrightarrow> half_open_contains rec p))"
proof (intro conjI impI)
  show "RL_CheckCollisionPointRec p rec \<longleftrightarrow>
      rec_x rec \<le> vec_x p \<and> vec_x p < rec_x rec + rec_width rec
      \<and> rec_y rec \<le> vec_y p \<and> vec_y p < rec_y rec + rec_height rec"
    by (simp add: RL_CheckCollisionPointRec_def)
next
  assume a: "is_finite (vec_x p) \<and> is_finite (vec_y p)
      \<and> rec_x rec + rec_width rec = Fin (val (rec_x rec) + val (rec_width rec))
      \<and> rec_y rec + rec_height rec = Fin (val (rec_y rec) + val (rec_height rec))"
  then obtain px py where p: "vec_x p = Fin px" "vec_y p = Fin py"
    unfolding is_finite_Fin by blast
  have fin: "\<exists>a b. x = Fin a \<and> w = Fin b" if "x + w = Fin c" for x w :: float32 and c
    using that by (cases x; cases w) simp_all
  obtain x w where x: "rec_x rec = Fin x" "rec_width rec = Fin w" using a fin by blast
  obtain y h where y: "rec_y rec = Fin y" "rec_height rec = Fin h" using a fin by blast
  show "RL_CheckCollisionPointRec p rec \<longleftrightarrow> half_open_contains rec p"
    using a unfolding RL_CheckCollisionPointRec_def half_open_contains_def p x y
    by simp
qed

theorem CheckCollisionPointRec_half_open_witness:
  "is_finite (Fin 0) \<and> is_finite (Fin 1)
   \<and> Fin 0 + Fin 1 = Fin (0 + 1)
   \<and> RL_CheckCollisionPointRec \<lparr>vec_x = Fin 0, vec_y = Fin 0\<rparr>
       \<lparr>rec_x = Fin 0, rec_y = Fin 0, rec_width = Fin 1, rec_height = Fin 1\<rparr>
   \<and> half_open_contains \<lparr>rec_x = Fin 0, rec_y = Fin 0, rec_width = Fin 1, rec_height = Fin 1\<rparr>
       \<lparr>vec_x = Fin 0, vec_y = Fin 0\<rparr>
   \<and> \<not> RL_CheckCollisionPointRec \<lparr>vec_x = Fin 1, vec_y = Fin 0\<rparr>
       \<lparr>rec_x = Fin 0, rec_y = Fin 0, rec_width = Fin 1, rec_height = Fin 1\<rparr>
   \<and> \<not> half_open_contains \<lparr>rec_x = Fin 0, rec_y = Fin 0, rec_width = Fin 1, rec_height = Fin 1\<rparr>
       \<lparr>vec_x = Fin 1, vec_y = Fin 0\<rparr>"
  using
    CheckCollisionPointRec_half_open
      [of "\<lparr>vec_x = Fin 0, vec_y = Fin 0\<rparr>"
          "\<lparr>rec_x = Fin 0, rec_y = Fin 0, rec_width = Fin 1, rec_height = Fin 1\<rparr>"]
    CheckCollisionPointRec_half_open
      [of "\<lparr>vec_x = Fin 1, vec_y = Fin 0\<rparr>"
          "\<lparr>rec_x = Fin 0, rec_y = Fin 0, rec_width = Fin 1, rec_height = Fin 1\<rparr>"]
  by (simp add: is_finite_def round32_small half_open_contains_def)

text \<open>
  C8. For every point \<open>p\<close>, centre \<open>c\<close> and radius \<open>r\<close>, \<^verbatim>\<open>RL_CheckCollisionPointCircle\<close>
  returns the same boolean as \<^verbatim>\<open>RL_CheckCollisionCircles\<close> called with the point as a
  circle of radius zero; both say whether the distance from \<open>p\<close> to \<open>c\<close>, as the code
  computes it, is at most \<open>0 + r\<close>.
\<close>

theorem CheckCollisionPointCircle_eq_Circles:
  "RL_CheckCollisionPointCircle p c r = RL_CheckCollisionCircles p (Fin 0) c r
   \<and> (RL_CheckCollisionPointCircle p c r \<longleftrightarrow>
        sqrtf ((vec_x c - vec_x p)*(vec_x c - vec_x p) + (vec_y c - vec_y p)*(vec_y c - vec_y p))
          \<le> Fin 0 + r)"
  by (simp add: RL_CheckCollisionPointCircle_def RL_CheckCollisionCircles_def Let_def)

text \<open>
  On one axis: for two intervals whose ends are beyond their starts, the larger start is
  below the smaller end exactly when each start is below the other interval's end.
\<close>

lemma overlap_axis:
  fixes r1 r2 :: float32
  assumes "Fin x1 < r1" and "Fin x2 < r2"
  shows "(if Fin x1 > Fin x2 then Fin x1 else Fin x2) < (if r1 < r2 then r1 else r2)
           \<longleftrightarrow> Fin x1 < r2 \<and> r1 > Fin x2"
  using assms by (cases r1; cases r2) auto

lemma overlap_axis_pos:
  fixes r1 r2 :: float32
  assumes "round32 x1 = Fin x1" and "round32 x2 = Fin x2" and "is_float r1" and "is_float r2"
    and "(if Fin x1 > Fin x2 then Fin x1 else Fin x2) < (if r1 < r2 then r1 else r2)"
  shows "Fin 0 < (if r1 < r2 then r1 else r2) - (if Fin x1 > Fin x2 then Fin x1 else Fin x2)"
proof (rule float_sub_pos)
  show "is_finite (if Fin x1 > Fin x2 then Fin x1 else Fin x2)"
    using assms(1,2) by (simp add: is_finite_def)
  show "is_float (if r1 < r2 then r1 else r2)" using assms(3,4) by simp
  show "(if Fin x1 > Fin x2 then Fin x1 else Fin x2) < (if r1 < r2 then r1 else r2)" by (rule assms(5))
qed

lemma float_less_irrefl: "\<not> (x::float32) < x"
  by (cases x) simp_all

lemma float_mult_eq_0:
  assumes "Fin 0 < x" and "Fin 0 < y"
  shows "x*y = Fin 0 \<longleftrightarrow> (\<exists>w h. x = Fin w \<and> y = Fin h \<and> w*h \<le> 1/2^150)"
proof (cases x)
  case x: (Fin w)
  show ?thesis
  proof (cases y)
    case y: (Fin h)
    have "0 \<le> w*h" using assms x y by simp
    then show ?thesis unfolding x y using round32_eq_0_iff [of "w*h"] by simp
  next
    case PInf then show ?thesis using assms x by simp
  next
    case NInf then show ?thesis using assms by simp
  next
    case NaN then show ?thesis using assms by simp
  qed
next
  case PInf then show ?thesis using assms by (cases y) auto
next
  case NInf then show ?thesis using assms by simp
next
  case NaN then show ?thesis using assms by simp
qed

lemma GetCollisionRec_proper:
  assumes "proper_rec rec1" and "proper_rec rec2"
  shows "RL_GetCollisionRec rec1 rec2 =
           (if RL_CheckCollisionRecs rec1 rec2
            then \<lparr>rec_x = (if rec_x rec1 > rec_x rec2 then rec_x rec1 else rec_x rec2),
                  rec_y = (if rec_y rec1 > rec_y rec2 then rec_y rec1 else rec_y rec2),
                  rec_width = (if rec_x rec1 + rec_width rec1 < rec_x rec2 + rec_width rec2
                               then rec_x rec1 + rec_width rec1 else rec_x rec2 + rec_width rec2)
                              - (if rec_x rec1 > rec_x rec2 then rec_x rec1 else rec_x rec2),
                  rec_height = (if rec_y rec1 + rec_height rec1 < rec_y rec2 + rec_height rec2
                                then rec_y rec1 + rec_height rec1 else rec_y rec2 + rec_height rec2)
                               - (if rec_y rec1 > rec_y rec2 then rec_y rec1 else rec_y rec2)\<rparr>
            else \<lparr>rec_x = Fin 0, rec_y = Fin 0, rec_width = Fin 0, rec_height = Fin 0\<rparr>)"
    and "RL_CheckCollisionRecs rec1 rec2 \<Longrightarrow>
           Fin 0 < rec_width (RL_GetCollisionRec rec1 rec2)
           \<and> Fin 0 < rec_height (RL_GetCollisionRec rec1 rec2)"
proof -
  obtain x1 y1 where 1: "rec_x rec1 = Fin x1" "round32 x1 = Fin x1" "rec_y rec1 = Fin y1" "round32 y1 = Fin y1"
    using assms(1) unfolding proper_rec_def is_finite_Fin by blast
  obtain x2 y2 where 2: "rec_x rec2 = Fin x2" "round32 x2 = Fin x2" "rec_y rec2 = Fin y2" "round32 y2 = Fin y2"
    using assms(2) unfolding proper_rec_def is_finite_Fin by blast
  define r1 where "r1 = rec_x rec1 + rec_width rec1"
  define r2 where "r2 = rec_x rec2 + rec_width rec2"
  define b1 where "b1 = rec_y rec1 + rec_height rec1"
  define b2 where "b2 = rec_y rec2 + rec_height rec2"
  have lt: "Fin x1 < r1" "Fin x2 < r2" "Fin y1 < b1" "Fin y2 < b2"
    using assms unfolding proper_rec_def r1_def r2_def b1_def b2_def 1 2 by simp_all
  have fl: "is_float r1" "is_float r2" "is_float b1" "is_float b2"
    unfolding r1_def r2_def b1_def b2_def by (rule is_float_plus)+
  have cx: "(if Fin x1 > Fin x2 then Fin x1 else Fin x2) < (if r1 < r2 then r1 else r2)
           \<longleftrightarrow> Fin x1 < r2 \<and> r1 > Fin x2"
    using lt(1,2) by (rule overlap_axis)
  have cy: "(if Fin y1 > Fin y2 then Fin y1 else Fin y2) < (if b1 < b2 then b1 else b2)
           \<longleftrightarrow> Fin y1 < b2 \<and> b1 > Fin y2"
    using lt(3,4) by (rule overlap_axis)
  have coll: "RL_CheckCollisionRecs rec1 rec2 \<longleftrightarrow>
               (Fin x1 < r2 \<and> r1 > Fin x2) \<and> (Fin y1 < b2 \<and> b1 > Fin y2)"
    unfolding RL_CheckCollisionRecs_def r1_def r2_def b1_def b2_def 1 2 by simp
  show eq: "RL_GetCollisionRec rec1 rec2 =
           (if RL_CheckCollisionRecs rec1 rec2
            then \<lparr>rec_x = (if rec_x rec1 > rec_x rec2 then rec_x rec1 else rec_x rec2),
                  rec_y = (if rec_y rec1 > rec_y rec2 then rec_y rec1 else rec_y rec2),
                  rec_width = (if rec_x rec1 + rec_width rec1 < rec_x rec2 + rec_width rec2
                               then rec_x rec1 + rec_width rec1 else rec_x rec2 + rec_width rec2)
                              - (if rec_x rec1 > rec_x rec2 then rec_x rec1 else rec_x rec2),
                  rec_height = (if rec_y rec1 + rec_height rec1 < rec_y rec2 + rec_height rec2
                                then rec_y rec1 + rec_height rec1 else rec_y rec2 + rec_height rec2)
                               - (if rec_y rec1 > rec_y rec2 then rec_y rec1 else rec_y rec2)\<rparr>
            else \<lparr>rec_x = Fin 0, rec_y = Fin 0, rec_width = Fin 0, rec_height = Fin 0\<rparr>)"
    unfolding coll cx [symmetric] cy [symmetric]
    unfolding RL_GetCollisionRec_def Let_def r1_def r2_def b1_def b2_def 1 2 by simp
  assume c: "RL_CheckCollisionRecs rec1 rec2"
  have "Fin 0 < (if r1 < r2 then r1 else r2) - (if Fin x1 > Fin x2 then Fin x1 else Fin x2)"
    using 1(2) 2(2) fl(1,2) c unfolding coll cx [symmetric] by (intro overlap_axis_pos) simp_all
  moreover have "Fin 0 < (if b1 < b2 then b1 else b2) - (if Fin y1 > Fin y2 then Fin y1 else Fin y2)"
    using 1(4) 2(4) fl(3,4) c unfolding coll cy [symmetric] by (intro overlap_axis_pos) simp_all
  ultimately show "Fin 0 < rec_width (RL_GetCollisionRec rec1 rec2)
           \<and> Fin 0 < rec_height (RL_GetCollisionRec rec1 rec2)"
    unfolding eq using c unfolding r1_def r2_def b1_def b2_def 1 2 by simp
qed

text \<open>
  C2, as stated: the overlap rectangle of \<^verbatim>\<open>RL_GetCollisionRec\<close> has area 0 if and only if
  \<^verbatim>\<open>RL_CheckCollisionRecs\<close> returns false. It fails for a rectangle of width and height 0
  inside another one: \<open>{5, 5, 0, 0}\<close> and \<open>{0, 0, 10, 10}\<close> collide, and their overlap is
  the zeroed rectangle.
\<close>

theorem GetCollisionRec_area_counterexample:
  "RL_CheckCollisionRecs
      \<lparr>rec_x = Fin 5, rec_y = Fin 5, rec_width = Fin 0, rec_height = Fin 0\<rparr>
      \<lparr>rec_x = Fin 0, rec_y = Fin 0, rec_width = Fin 10, rec_height = Fin 10\<rparr>
   \<and> RL_GetCollisionRec
      \<lparr>rec_x = Fin 5, rec_y = Fin 5, rec_width = Fin 0, rec_height = Fin 0\<rparr>
      \<lparr>rec_x = Fin 0, rec_y = Fin 0, rec_width = Fin 10, rec_height = Fin 10\<rparr>
     = \<lparr>rec_x = Fin 0, rec_y = Fin 0, rec_width = Fin 0, rec_height = Fin 0\<rparr>
   \<and> rec_area (RL_GetCollisionRec
      \<lparr>rec_x = Fin 5, rec_y = Fin 5, rec_width = Fin 0, rec_height = Fin 0\<rparr>
      \<lparr>rec_x = Fin 0, rec_y = Fin 0, rec_width = Fin 10, rec_height = Fin 10\<rparr>) = Fin 0"
  by (simp add: RL_GetCollisionRec_def RL_CheckCollisionRecs_def rec_area_def round32_small)

text \<open>
  Two more ways for colliding rectangles to have an overlap of area 0, with widths and
  heights that are all positive: the width 1 of \<open>{16777216, 0, 1, 1}\<close> is lost when
  \<open>16777216 + 1\<close> rounds to \<open>16777216\<close>, and its overlap with \<open>{0, 0, 33554432, 1}\<close> is the
  zeroed rectangle; the overlap of \<open>{0, 0, 1/2^75, 1/2^75}\<close> with itself is itself, and
  the product of its width and height, \<open>1/2^150\<close>, rounds to 0.
\<close>

lemma GetCollisionRec_absorbed_width:
  "RL_CheckCollisionRecs
      \<lparr>rec_x = Fin 16777216, rec_y = Fin 0, rec_width = Fin 1, rec_height = Fin 1\<rparr>
      \<lparr>rec_x = Fin 0, rec_y = Fin 0, rec_width = Fin 33554432, rec_height = Fin 1\<rparr>
   \<and> RL_GetCollisionRec
      \<lparr>rec_x = Fin 16777216, rec_y = Fin 0, rec_width = Fin 1, rec_height = Fin 1\<rparr>
      \<lparr>rec_x = Fin 0, rec_y = Fin 0, rec_width = Fin 33554432, rec_height = Fin 1\<rparr>
     = \<lparr>rec_x = Fin 0, rec_y = Fin 0, rec_width = Fin 0, rec_height = Fin 0\<rparr>"
proof -
  have "round32 16777217 = Fin 16777216"
    using round32_eval [of 150 16777217 8388608] by (simp add: round_even_def)
  moreover have "round32 33554432 = Fin 33554432"
    using round32_exact [of 8388608 151] by simp
  ultimately show ?thesis
    by (simp add: RL_GetCollisionRec_def RL_CheckCollisionRecs_def round32_small)
qed

lemma GetCollisionRec_area_underflow:
  "RL_CheckCollisionRecs
      \<lparr>rec_x = Fin 0, rec_y = Fin 0, rec_width = Fin (1/2^75), rec_height = Fin (1/2^75)\<rparr>
      \<lparr>rec_x = Fin 0, rec_y = Fin 0, rec_width = Fin (1/2^75), rec_height = Fin (1/2^75)\<rparr>
   \<and> RL_GetCollisionRec
      \<lparr>rec_x = Fin 0, rec_y = Fin 0, rec_width = Fin (1/2^75), rec_height = Fin (1/2^75)\<rparr>
      \<lparr>rec_x = Fin 0, rec_y = Fin 0, rec_width = Fin (1/2^75), rec_height = Fin (1/2^75)\<rparr>
     = \<lparr>rec_x = Fin 0, rec_y = Fin 0, rec_width = Fin (1/2^75), rec_height = Fin (1/2^75)\<rparr>
   \<and> rec_area \<lparr>rec_x = Fin 0, rec_y = Fin 0, rec_width = Fin (1/2^75), rec_height = Fin (1/2^75)\<rparr>
     = Fin 0"
proof -
  have a: "round32 (1/2^75) = Fin (1/2^75)"
    using round32_dyadic [of "1/2^75" 75] by simp
  have b: "round32 (1/2^150) = Fin 0"
    using round32_eq_0_iff [of "1/2^150"] by simp
  have c: "(1/2^75)*(1/2^75) = (1/2^150 :: real)" by simp
  show ?thesis
    unfolding RL_GetCollisionRec_def RL_CheckCollisionRecs_def rec_area_def Let_def
    by (simp add: a b c minus_float32_def del: power_numeral)
qed

text \<open>
  C2, amended: for rectangles whose fields are finite and whose right and bottom
  edges, as the code computes them (\<open>x + width\<close> and \<open>y + height\<close>, rounded), are beyond
  their left and top edges, the overlap rectangle of \<^verbatim>\<open>RL_GetCollisionRec\<close> is the
  zeroed rectangle if and only if \<^verbatim>\<open>RL_CheckCollisionRecs\<close> returns false, and it has a
  strictly positive width and height if and only if \<^verbatim>\<open>RL_CheckCollisionRecs\<close> returns
  true. Its area \<open>width*height\<close> (the float product) is 0 if and only if
  \<^verbatim>\<open>RL_CheckCollisionRecs\<close> returns false or the product underflows, that is when the
  exact product of the width and the height is at most \<open>1/2^150\<close>.
\<close>

theorem GetCollisionRec_area_zero_iff:
  assumes "proper_rec rec1" and "proper_rec rec2"
  shows "(rec_area (RL_GetCollisionRec rec1 rec2) = Fin 0 \<longleftrightarrow>
            \<not> RL_CheckCollisionRecs rec1 rec2
            \<or> (\<exists>w h. rec_width (RL_GetCollisionRec rec1 rec2) = Fin w
                    \<and> rec_height (RL_GetCollisionRec rec1 rec2) = Fin h \<and> w*h \<le> 1/2^150))
         \<and> (RL_GetCollisionRec rec1 rec2
              = \<lparr>rec_x = Fin 0, rec_y = Fin 0, rec_width = Fin 0, rec_height = Fin 0\<rparr>
            \<longleftrightarrow> \<not> RL_CheckCollisionRecs rec1 rec2)
         \<and> (Fin 0 < rec_width (RL_GetCollisionRec rec1 rec2)
            \<and> Fin 0 < rec_height (RL_GetCollisionRec rec1 rec2)
            \<longleftrightarrow> RL_CheckCollisionRecs rec1 rec2)"
proof (cases "RL_CheckCollisionRecs rec1 rec2")
  case True
  have pos: "Fin 0 < rec_width (RL_GetCollisionRec rec1 rec2)"
    "Fin 0 < rec_height (RL_GetCollisionRec rec1 rec2)"
    using GetCollisionRec_proper(2) [OF assms True] by simp_all
  have "RL_GetCollisionRec rec1 rec2
          \<noteq> \<lparr>rec_x = Fin 0, rec_y = Fin 0, rec_width = Fin 0, rec_height = Fin 0\<rparr>"
    using pos(1) by (auto simp: float_less_irrefl)
  then show ?thesis
    using True pos float_mult_eq_0 [OF pos] unfolding rec_area_def by simp
next
  case False
  have "RL_GetCollisionRec rec1 rec2
          = \<lparr>rec_x = Fin 0, rec_y = Fin 0, rec_width = Fin 0, rec_height = Fin 0\<rparr>"
    using GetCollisionRec_proper(1) [OF assms] False by simp
  then show ?thesis using False by (simp add: rec_area_def)
qed

theorem GetCollisionRec_area_zero_iff_witness:
  "proper_rec \<lparr>rec_x = Fin 0, rec_y = Fin 0, rec_width = Fin 10, rec_height = Fin 10\<rparr>
   \<and> proper_rec \<lparr>rec_x = Fin 5, rec_y = Fin 5, rec_width = Fin 10, rec_height = Fin 10\<rparr>
   \<and> RL_CheckCollisionRecs
         \<lparr>rec_x = Fin 0, rec_y = Fin 0, rec_width = Fin 10, rec_height = Fin 10\<rparr>
         \<lparr>rec_x = Fin 5, rec_y = Fin 5, rec_width = Fin 10, rec_height = Fin 10\<rparr>
   \<and> RL_GetCollisionRec
         \<lparr>rec_x = Fin 0, rec_y = Fin 0, rec_width = Fin 10, rec_height = Fin 10\<rparr>
         \<lparr>rec_x = Fin 5, rec_y = Fin 5, rec_width = Fin 10, rec_height = Fin 10\<rparr>
       = \<lparr>rec_x = Fin 5, rec_y = Fin 5, rec_width = Fin 5, rec_height = Fin 5\<rparr>
   \<and> rec_area (RL_GetCollisionRec
         \<lparr>rec_x = Fin 0, rec_y = Fin 0, rec_width = Fin 10, rec_height = Fin 10\<rparr>
         \<lparr>rec_x = Fin 5, rec_y = Fin 5, rec_width = Fin 10, rec_height = Fin 10\<rparr>) \<noteq> Fin 0"
  using GetCollisionRec_area_zero_iff
    [of "\<lparr>rec_x = Fin 0, rec_y = Fin 0, rec_width = Fin 10, rec_height = Fin 10\<rparr>"
        "\<lparr>rec_x = Fin 5, rec_y = Fin 5, rec_width = Fin 10, rec_height = Fin 10\<rparr>"]
  by (simp add: RL_GetCollisionRec_def RL_CheckCollisionRecs_def proper_rec_def is_finite_def
      round32_small minus_float32_def Let_def rec_area_def)

subsection \<open>Point in triangle\<close>

lemma float_minus_swap: "(x::float32) - y = - (y - x)"
proof (cases x)
  case x: (Fin a)
  show ?thesis
  proof (cases y)
    case y: (Fin b)
    have "round32 (a - b) = - round32 (b - a)"
      using round32_minus [of "b - a"] by simp
    then show ?thesis unfolding x y minus_float32_def by simp
  qed (simp_all add: x minus_float32_def)
qed (cases y; simp add: minus_float32_def)+

lemma float_mult_commute: "(x::float32)*y = y*x"
  by (cases x; cases y) (simp_all add: mult.commute)

lemma float_mult_minus_left: "(- x)*y = - ((x::float32)*y)"
proof (cases x)
  case x: (Fin a)
  show ?thesis
  proof (cases y)
    case y: (Fin b)
    have "round32 (- a*b) = - round32 (a*b)"
      using round32_minus [of "a*b"] by simp
    then show ?thesis unfolding x y by simp
  qed (simp_all add: x)
qed (cases y; simp)+

lemma float_neg_add_self: "\<not> Fin 0 < (- z + z) / (d::float32)"
proof -
  have z: "- z + z = Fin 0 \<or> - z + z = NaN" by (cases z) simp_all
  have "\<not> Fin 0 < Fin 0/d" by (cases d) simp_all
  moreover have "\<not> Fin 0 < NaN/d" by (cases d) simp_all
  ultimately show ?thesis using z by auto
qed

lemma float_add_neg_self: "\<not> Fin 0 < (z + - z) / (d::float32)"
proof -
  have z: "z + - z = Fin 0 \<or> z + - z = NaN" by (cases z) simp_all
  have "\<not> Fin 0 < Fin 0/d" by (cases d) simp_all
  moreover have "\<not> Fin 0 < NaN/d" by (cases d) simp_all
  ultimately show ?thesis using z by auto
qed

lemma float_zero_products: "\<not> Fin 0 < (u*(x - x) + v*(y - y)) / (d::float32)"
proof -
  have x: "x - x = Fin 0 \<or> x - x = NaN" unfolding minus_float32_def by (cases x) simp_all
  have y: "y - y = Fin 0 \<or> y - y = NaN" unfolding minus_float32_def by (cases y) simp_all
  have u: "u*Fin 0 = Fin 0 \<or> u*Fin 0 = NaN" by (cases u) simp_all
  have v: "v*Fin 0 = Fin 0 \<or> v*Fin 0 = NaN" by (cases v) simp_all
  have n: "u*NaN = NaN" "v*NaN = NaN" by (cases u; simp) (cases v; simp)
  have s: "u*(x - x) + v*(y - y) = Fin 0 \<or> u*(x - x) + v*(y - y) = NaN"
    using x y u v n by (elim disjE) simp_all
  have "\<not> Fin 0 < Fin 0/d" by (cases d) simp_all
  moreover have "\<not> Fin 0 < NaN/d" by (cases d) simp_all
  ultimately show ?thesis using s by auto
qed

text \<open>
  A triangle whose denominator is zero never reports a collision: the two quotients are
  infinite or NaN, and where both are \<open>+inf\<close>, \<open>1 - alpha - beta\<close> is \<open>-inf\<close>.
\<close>

lemma CheckCollisionPointTriangle_degenerate:
  assumes "triangle_det p1 p2 p3 = Fin 0"
  shows "\<not> RL_CheckCollisionPointTriangle point p1 p2 p3"
proof -
  have q: "n/Fin 0 = PInf \<or> \<not> Fin 0 < n/Fin 0" for n :: float32
    by (cases n) simp_all
  have g: "\<not> Fin 0 < Fin 1 - PInf - PInf" by (simp add: minus_float32_def)
  show ?thesis
    unfolding RL_CheckCollisionPointTriangle_def Let_def
    unfolding triangle_det_def [symmetric] assms
    using q g by (metis (full_types))
qed

lemma CheckCollisionPointTriangle_coordinates:
  "RL_CheckCollisionPointTriangle point p1 p2 p3 \<longleftrightarrow>
     Fin 0 < triangle_alpha point p1 p2 p3 \<and> Fin 0 < triangle_beta point p1 p2 p3
     \<and> Fin 0 < triangle_gamma point p1 p2 p3"
  by (simp add: RL_CheckCollisionPointTriangle_def triangle_alpha_def triangle_beta_def
      triangle_gamma_def triangle_det_def Let_def)

lemma CheckCollisionPointTriangle_corners:
  "\<not> RL_CheckCollisionPointTriangle p1 p1 p2 p3"
  "\<not> RL_CheckCollisionPointTriangle p2 p1 p2 p3"
  "\<not> RL_CheckCollisionPointTriangle p3 p1 p2 p3"
proof -
  have "\<not> Fin 0 < triangle_beta p1 p1 p2 p3"
    unfolding triangle_beta_def
    unfolding float_minus_swap [of "vec_y p3" "vec_y p1"] float_mult_minus_left
      float_mult_commute [of "vec_x p1 - vec_x p3"]
    by (rule float_neg_add_self)
  then show "\<not> RL_CheckCollisionPointTriangle p1 p1 p2 p3"
    unfolding CheckCollisionPointTriangle_coordinates by simp
  have "\<not> Fin 0 < triangle_alpha p2 p1 p2 p3"
    unfolding triangle_alpha_def
    unfolding float_minus_swap [of "vec_x p3" "vec_x p2"] float_mult_minus_left
      float_mult_commute [of "vec_x p2 - vec_x p3"]
    by (rule float_add_neg_self)
  then show "\<not> RL_CheckCollisionPointTriangle p2 p1 p2 p3"
    unfolding CheckCollisionPointTriangle_coordinates by simp
  have "\<not> Fin 0 < triangle_alpha p3 p1 p2 p3"
    unfolding triangle_alpha_def by (rule float_zero_products)
  then show "\<not> RL_CheckCollisionPointTriangle p3 p1 p2 p3"
    unfolding CheckCollisionPointTriangle_coordinates by simp
qed

text \<open>
  C6, as stated: \<^verbatim>\<open>RL_CheckCollisionPointTriangle\<close> returns true if and only if the three
  barycentric coordinates of the point are strictly positive, and a point lying exactly
  on an edge is reported as not colliding. It fails where the quotients round. In the
  triangle \<open>(0, 0)\<close>, \<open>(10, 0)\<close>, \<open>(0, 10)\<close> the point \<open>(1, 0)\<close> lies on the edge from \<open>p1\<close>
  to \<open>p2\<close>: its barycentric coordinates are \<open>9/10\<close>, \<open>1/10\<close> and 0. The code computes
  \<open>alpha = 90/100\<close> and \<open>beta = 10/100\<close>, both rounded, and \<open>gamma = 1 - alpha - beta\<close> is
  \<open>3/2^27\<close>, not 0: the point is reported as colliding.
\<close>

theorem CheckCollisionPointTriangle_edge_counterexample:
  "barycentric \<lparr>vec_x = Fin 1, vec_y = Fin 0\<rparr>
     \<lparr>vec_x = Fin 0, vec_y = Fin 0\<rparr> \<lparr>vec_x = Fin 10, vec_y = Fin 0\<rparr> \<lparr>vec_x = Fin 0, vec_y = Fin 10\<rparr>
     (9/10) (1/10) 0
   \<and> triangle_gamma \<lparr>vec_x = Fin 1, vec_y = Fin 0\<rparr>
       \<lparr>vec_x = Fin 0, vec_y = Fin 0\<rparr> \<lparr>vec_x = Fin 10, vec_y = Fin 0\<rparr> \<lparr>vec_x = Fin 0, vec_y = Fin 10\<rparr>
     = Fin (3/2^27)
   \<and> RL_CheckCollisionPointTriangle \<lparr>vec_x = Fin 1, vec_y = Fin 0\<rparr>
       \<lparr>vec_x = Fin 0, vec_y = Fin 0\<rparr> \<lparr>vec_x = Fin 10, vec_y = Fin 0\<rparr> \<lparr>vec_x = Fin 0, vec_y = Fin 10\<rparr>"
proof -
  have a: "round32 (9/10) = Fin (7549747/8388608)"
    using round32_eval [of 125 "9/10" "15099494"] by (simp add: round_even_def)
  have b: "round32 (1/10) = Fin (13421773/134217728)"
    using round32_eval [of 122 "1/10" "13421773"] by (simp add: round_even_def)
  have c: "round32 (838861/8388608) = Fin (838861/8388608)"
    using round32_dyadic [of "838861/8388608" 23] by simp
  have d: "round32 (3/134217728) = Fin (3/134217728)"
    using round32_dyadic [of "3/134217728" 27] by simp
  show ?thesis
    unfolding CheckCollisionPointTriangle_coordinates
    by (simp add: barycentric_def triangle_alpha_def triangle_beta_def triangle_gamma_def
        triangle_det_def minus_float32_def round32_small a b c d)
qed

text \<open>
  C6, amended: \<^verbatim>\<open>RL_CheckCollisionPointTriangle\<close> returns true if and only if the three
  coordinates as the code computes them in float arithmetic, the two quotients \<open>alpha\<close>
  and \<open>beta\<close> and \<open>gamma = 1 - alpha - beta\<close>, each operation rounded, are all strictly
  positive. A triangle whose denominator is zero reports no collision, and each of the
  three corners of a triangle is reported as not colliding.
\<close>

theorem CheckCollisionPointTriangle_barycentric:
  "(RL_CheckCollisionPointTriangle point p1 p2 p3 \<longleftrightarrow>
      Fin 0 < triangle_alpha point p1 p2 p3 \<and> Fin 0 < triangle_beta point p1 p2 p3
      \<and> Fin 0 < triangle_gamma point p1 p2 p3)
   \<and> (triangle_det p1 p2 p3 = Fin 0 \<longrightarrow> \<not> RL_CheckCollisionPointTriangle point p1 p2 p3)
   \<and> \<not> RL_CheckCollisionPointTriangle p1 p1 p2 p3
   \<and> \<not> RL_CheckCollisionPointTriangle p2 p1 p2 p3
   \<and> \<not> RL_CheckCollisionPointTriangle p3 p1 p2 p3"
  using CheckCollisionPointTriangle_coordinates [of point p1 p2 p3]
    CheckCollisionPointTriangle_degenerate [of p1 p2 p3 point]
    CheckCollisionPointTriangle_corners
  by blast

theorem CheckCollisionPointTriangle_barycentric_witness:
  "RL_CheckCollisionPointTriangle \<lparr>vec_x = Fin 1, vec_y = Fin 1\<rparr>
       \<lparr>vec_x = Fin 0, vec_y = Fin 0\<rparr> \<lparr>vec_x = Fin 4, vec_y = Fin 0\<rparr> \<lparr>vec_x = Fin 0, vec_y = Fin 4\<rparr>
   \<and> triangle_alpha \<lparr>vec_x = Fin 1, vec_y = Fin 1\<rparr>
       \<lparr>vec_x = Fin 0, vec_y = Fin 0\<rparr> \<lparr>vec_x = Fin 4, vec_y = Fin 0\<rparr> \<lparr>vec_x = Fin 0, vec_y = Fin 4\<rparr>
     = Fin (1/2)
   \<and> triangle_det \<lparr>vec_x = Fin 0, vec_y = Fin 0\<rparr> \<lparr>vec_x = Fin 1, vec_y = Fin 1\<rparr> \<lparr>vec_x = Fin 2, vec_y = Fin 2\<rparr>
     = Fin 0
   \<and> \<not> RL_CheckCollisionPointTriangle \<lparr>vec_x = Fin 1, vec_y = Fin 1\<rparr>
       \<lparr>vec_x = Fin 0, vec_y = Fin 0\<rparr> \<lparr>vec_x = Fin 1, vec_y = Fin 1\<rparr> \<lparr>vec_x = Fin 2, vec_y = Fin 2\<rparr>"
  using
    CheckCollisionPointTriangle_barycentric
      [of "\<lparr>vec_x = Fin 1, vec_y = Fin 1\<rparr>"
          "\<lparr>vec_x = Fin 0, vec_y = Fin 0\<rparr>" "\<lparr>vec_x = Fin 4, vec_y = Fin 0\<rparr>" "\<lparr>vec_x = Fin 0, vec_y = Fin 4\<rparr>"]
    CheckCollisionPointTriangle_barycentric
      [of "\<lparr>vec_x = Fin 1, vec_y = Fin 1\<rparr>"
          "\<lparr>vec_x = Fin 0, vec_y = Fin 0\<rparr>" "\<lparr>vec_x = Fin 1, vec_y = Fin 1\<rparr>" "\<lparr>vec_x = Fin 2, vec_y = Fin 2\<rparr>"]
  by (simp add: triangle_alpha_def triangle_beta_def triangle_gamma_def triangle_det_def
      minus_float32_def round32_small)

subsection \<open>Point in polygon\<close>

lemma CheckCollisionPointPoly_loop_step:
  "i + 1 < length points \<Longrightarrow>
     CheckCollisionPointPoly_loop point points (Suc n) i collision =
       CheckCollisionPointPoly_loop point points n (i + 1)
         (collision \<noteq> edge_toggles point (points ! i) (points ! (i + 1)))"
  by (auto simp: Let_def edge_toggles_def add.commute)

lemma CheckCollisionPointPoly_loop_parity:
  "i + n < length points \<Longrightarrow>
     CheckCollisionPointPoly_loop point points n i collision =
       Some (collision \<noteq> odd (length (filter (\<lambda>j. edge_toggles point (points ! j) (points ! (j + 1))) [i..<i + n])))"
proof (induction n arbitrary: i collision)
  case 0
  then show ?case by simp
next
  case (Suc n)
  have lt: "i + 1 < length points" and lt': "(i + 1) + n < length points"
    using Suc.prems by simp_all
  have range: "[i..<i + Suc n] = i # [i + 1..<(i + 1) + n]"
    by (simp add: upt_conv_Cons)
  show ?case
    unfolding CheckCollisionPointPoly_loop_step [OF lt] Suc.IH [OF lt'] range
    by auto
qed

lemma CheckCollisionPointPoly_loop_out_of_bounds:
  "length points \<le> i + n \<Longrightarrow> 0 < n \<Longrightarrow>
     CheckCollisionPointPoly_loop point points n i collision = None"
proof (induction n arbitrary: i collision)
  case 0
  then show ?case by simp
next
  case (Suc n)
  show ?case
  proof (cases "i + 1 < length points")
    case False
    then show ?thesis by simp
  next
    case True
    with Suc.prems have "0 < n" "length points \<le> i + 1 + n" by simp_all
    with Suc.IH [of "i + 1"] True show ?thesis by (simp add: Let_def)
  qed
qed

text \<open>
  C5. For \<open>pointCount \<le> 2\<close> \<^verbatim>\<open>RL_CheckCollisionPointPoly\<close> returns false. For
  \<open>pointCount > 2\<close> (within the array) it returns the parity of the number of edges, among
  the \<open>pointCount - 1\<close> edges from \<open>points[i]\<close> to \<open>points[i + 1]\<close> with
  \<open>i = 0 .. pointCount - 2\<close>, that toggle the result: those whose y-span straddles the
  point's \<open>y\<close> and that cross that height to the right of the point, as the code computes
  the crossing. The edge from the last point back to the first is not among them.
\<close>

theorem CheckCollisionPointPoly_consecutive_edges:
  "(pointCount \<le> 2 \<longrightarrow> RL_CheckCollisionPointPoly point points pointCount = Some False)
   \<and> (2 < pointCount \<and> pointCount \<le> int (length points) \<longrightarrow>
        RL_CheckCollisionPointPoly point points pointCount =
          Some (odd (length (filter
                  (\<lambda>i. ((vec_y (points ! (i + 1)) < vec_y point \<and> vec_y point \<le> vec_y (points ! i))
                          \<or> (vec_y (points ! i) < vec_y point \<and> vec_y point \<le> vec_y (points ! (i + 1))))
                        \<and> vec_x point < (vec_x (points ! (i + 1)) - vec_x (points ! i))*(vec_y point - vec_y (points ! i))
                                 /(vec_y (points ! (i + 1)) - vec_y (points ! i))
                             + vec_x (points ! i))
                  [0..<nat (pointCount - 1)]))))"
proof (intro conjI impI)
  assume "pointCount \<le> 2"
  then show "RL_CheckCollisionPointPoly point points pointCount = Some False"
    by (simp add: RL_CheckCollisionPointPoly_def)
next
  assume a: "2 < pointCount \<and> pointCount \<le> int (length points)"
  then have "0 + nat (pointCount - 1) < length points" by linarith
  from CheckCollisionPointPoly_loop_parity [OF this, of point False] a
  show "RL_CheckCollisionPointPoly point points pointCount =
          Some (odd (length (filter
                  (\<lambda>i. ((vec_y (points ! (i + 1)) < vec_y point \<and> vec_y point \<le> vec_y (points ! i))
                          \<or> (vec_y (points ! i) < vec_y point \<and> vec_y point \<le> vec_y (points ! (i + 1))))
                        \<and> vec_x point < (vec_x (points ! (i + 1)) - vec_x (points ! i))*(vec_y point - vec_y (points ! i))
                                 /(vec_y (points ! (i + 1)) - vec_y (points ! i))
                             + vec_x (points ! i))
                  [0..<nat (pointCount - 1)])))"
    by (simp add: RL_CheckCollisionPointPoly_def edge_toggles_def)
qed

theorem CheckCollisionPointPoly_consecutive_edges_witness:
  "(2::int) \<le> 2
   \<and> RL_CheckCollisionPointPoly \<lparr>vec_x = Fin (1/4), vec_y = Fin 1\<rparr>
        [\<lparr>vec_x = Fin 0, vec_y = Fin 0\<rparr>, \<lparr>vec_x = Fin 4, vec_y = Fin 0\<rparr>, \<lparr>vec_x = Fin 2, vec_y = Fin 4\<rparr>] 2
      = Some False
   \<and> (2::int) < 3
   \<and> 3 \<le> int (length [\<lparr>vec_x = Fin 0, vec_y = Fin 0\<rparr>, \<lparr>vec_x = Fin 4, vec_y = Fin 0\<rparr>,
                        \<lparr>vec_x = Fin 2, vec_y = Fin 4\<rparr>])
   \<and> RL_CheckCollisionPointPoly \<lparr>vec_x = Fin (1/4), vec_y = Fin 1\<rparr>
        [\<lparr>vec_x = Fin 0, vec_y = Fin 0\<rparr>, \<lparr>vec_x = Fin 4, vec_y = Fin 0\<rparr>, \<lparr>vec_x = Fin 2, vec_y = Fin 4\<rparr>] 3
      = Some True
   \<and> RL_CheckCollisionPointPoly \<lparr>vec_x = Fin (1/4), vec_y = Fin 1\<rparr>
        [\<lparr>vec_x = Fin 0, vec_y = Fin 0\<rparr>, \<lparr>vec_x = Fin 4, vec_y = Fin 0\<rparr>, \<lparr>vec_x = Fin 2, vec_y = Fin 4\<rparr>,
         \<lparr>vec_x = Fin 0, vec_y = Fin 0\<rparr>] 4
      = Some False"
  using
    CheckCollisionPointPoly_consecutive_edges
      [of 2 "\<lparr>vec_x = Fin (1/4), vec_y = Fin 1\<rparr>"
          "[\<lparr>vec_x = Fin 0, vec_y = Fin 0\<rparr>, \<lparr>vec_x = Fin 4, vec_y = Fin 0\<rparr>, \<lparr>vec_x = Fin 2, vec_y = Fin 4\<rparr>]"]
    CheckCollisionPointPoly_consecutive_edges
      [of 3 "\<lparr>vec_x = Fin (1/4), vec_y = Fin 1\<rparr>"
          "[\<lparr>vec_x = Fin 0, vec_y = Fin 0\<rparr>, \<lparr>vec_x = Fin 4, vec_y = Fin 0\<rparr>, \<lparr>vec_x = Fin 2, vec_y = Fin 4\<rparr>]"]
    CheckCollisionPointPoly_consecutive_edges
      [of 4 "\<lparr>vec_x = Fin (1/4), vec_y = Fin 1\<rparr>"
          "[\<lparr>vec_x = Fin 0, vec_y = Fin 0\<rparr>, \<lparr>vec_x = Fin 4, vec_y = Fin 0\<rparr>, \<lparr>vec_x = Fin 2, vec_y = Fin 4\<rparr>,
            \<lparr>vec_x = Fin 0, vec_y = Fin 0\<rparr>]"]
  by (simp add: upt_rec minus_float32_def round32_small)

subsection \<open>Circle and rectangle\<close>

text \<open>
  \<open>closest_distance_sq\<close> is a lower bound of the squared distance from the centre to any
  point \<open>(qx, qy)\<close> of the rectangle.
\<close>

lemma closest_distance_sq_le:
  assumes "val (rec_x rec) \<le> qx" and "qx \<le> val (rec_x rec) + val (rec_width rec)"
    and "val (rec_y rec) \<le> qy" and "qy \<le> val (rec_y rec) + val (rec_height rec)"
  shows "closest_distance_sq center rec \<le> (val (vec_x center) - qx)\<^sup>2 + (val (vec_y center) - qy)\<^sup>2"
proof -
  have x: "max 0 (\<bar>val (vec_x center) - (val (rec_x rec) + val (rec_width rec)/2)\<bar> - val (rec_width rec)/2)
             \<le> \<bar>val (vec_x center) - qx\<bar>"
    using assms(1,2) by (auto simp: max_def abs_if field_simps)
  have y: "max 0 (\<bar>val (vec_y center) - (val (rec_y rec) + val (rec_height rec)/2)\<bar> - val (rec_height rec)/2)
             \<le> \<bar>val (vec_y center) - qy\<bar>"
    using assms(3,4) by (auto simp: max_def abs_if field_simps)
  have "(max 0 (\<bar>val (vec_x center) - (val (rec_x rec) + val (rec_width rec)/2)\<bar> - val (rec_width rec)/2))\<^sup>2
          \<le> \<bar>val (vec_x center) - qx\<bar>\<^sup>2"
    by (rule power_mono [OF x]) simp
  moreover have "(max 0 (\<bar>val (vec_y center) - (val (rec_y rec) + val (rec_height rec)/2)\<bar> - val (rec_height rec)/2))\<^sup>2
          \<le> \<bar>val (vec_y center) - qy\<bar>\<^sup>2"
    by (rule power_mono [OF y]) simp
  ultimately show ?thesis by (simp add: closest_distance_sq_def)
qed

text \<open>
  C4. \<^verbatim>\<open>RL_CheckCollisionCircleRec\<close> is meant to return true exactly when the closest
  point of the rectangle lies within \<open>radius\<close> of the circle's centre. The code truncates
  the rectangle's centre to \<^verbatim>\<open>int\<close>: for the rectangle \<open>{0, 0, 1, 1}\<close>, whose centre
  \<open>(0.5, 0.5)\<close> becomes \<open>(0, 0)\<close>, and the circle of radius \<open>0.25\<close> at \<open>(-0.75, 0.5)\<close> it
  returns true, although the closest point of the rectangle, \<open>(0, 0.5)\<close>, is at distance
  \<open>0.75\<close>. All the numbers are floats and no operation rounds.
\<close>

theorem CheckCollisionCircleRec_truncated_centre:
  "RL_CheckCollisionCircleRec \<lparr>vec_x = Fin (- 3/4), vec_y = Fin (1/2)\<rparr> (Fin (1/4))
      \<lparr>rec_x = Fin 0, rec_y = Fin 0, rec_width = Fin 1, rec_height = Fin 1\<rparr> = Some True
   \<and> closest_distance_sq \<lparr>vec_x = Fin (- 3/4), vec_y = Fin (1/2)\<rparr>
        \<lparr>rec_x = Fin 0, rec_y = Fin 0, rec_width = Fin 1, rec_height = Fin 1\<rparr> = 9/16
   \<and> \<not> (9/16 \<le> ((1/4)\<^sup>2 :: real))
   \<and> is_finite (Fin (- 3/4)) \<and> is_finite (Fin (1/2)) \<and> is_finite (Fin (1/4))
   \<and> is_finite (Fin 0) \<and> is_finite (Fin 1)"
  by (simp add: RL_CheckCollisionCircleRec_def closest_distance_sq_def power2_eq_square
      float_of_int_def minus_float32_def round32_small is_finite_def)

section \<open>Properties of the shapes texture\<close>

lemma SetShapesTexture_cases:
  "SetShapesTexture texture source st =
     (if tex_id texture = 0 \<or> rec_width source = Fin 0 \<or> rec_height source = Fin 0
      then shapes_init
      else \<lparr>texShapes = texture, texShapesRec = source\<rparr>)"
  by (cases st) (auto simp: SetShapesTexture_def shapes_init_def feq_def)

lemma SetShapesTexture_establishes_valid: "shapes_valid (SetShapesTexture texture source st)"
  by (simp add: SetShapesTexture_cases shapes_valid_def shapes_init_def)

lemma SetShapesTexture_calls_valid:
  "shapes_valid st \<Longrightarrow> shapes_valid (SetShapesTexture_calls calls st)"
  by (induction calls arbitrary: st) (auto simp: SetShapesTexture_establishes_valid)

lemma shapes_init_valid: "shapes_valid shapes_init"
  by (simp add: shapes_valid_def shapes_init_def)

text \<open>
  C9. \<^verbatim>\<open>SetShapesTexture(texture, source)\<close> resets the binding to the default texture
  \<open>{1, 1, 1, 1, 7}\<close> with source rectangle \<open>{0, 0, 1, 1}\<close> when \<open>texture.id\<close>, \<open>source.width\<close>
  or \<open>source.height\<close> is zero, and otherwise sets it to the pair supplied. So after a call,
  and after any sequence of calls starting from the default binding, the binding's
  texture id and its rectangle's width and height are not zero.
\<close>

theorem SetShapesTexture_binding_valid:
  "SetShapesTexture texture source st =
     (if tex_id texture = 0 \<or> rec_width source = Fin 0 \<or> rec_height source = Fin 0
      then \<lparr>texShapes = \<lparr>tex_id = 1, tex_width = 1, tex_height = 1, tex_mipmaps = 1, tex_format = 7\<rparr>,
            texShapesRec = \<lparr>rec_x = Fin 0, rec_y = Fin 0, rec_width = Fin 1, rec_height = Fin 1\<rparr>\<rparr>
      else \<lparr>texShapes = texture, texShapesRec = source\<rparr>)
   \<and> tex_id (texShapes (SetShapesTexture texture source st)) \<noteq> 0
   \<and> rec_width (texShapesRec (SetShapesTexture texture source st)) \<noteq> Fin 0
   \<and> rec_height (texShapesRec (SetShapesTexture texture source st)) \<noteq> Fin 0
   \<and> tex_id (texShapes (SetShapesTexture_calls calls shapes_init)) \<noteq> 0
   \<and> rec_width (texShapesRec (SetShapesTexture_calls calls shapes_init)) \<noteq> Fin 0
   \<and> rec_height (texShapesRec (SetShapesTexture_calls calls shapes_init)) \<noteq> Fin 0"
proof -
  have one: "shapes_valid (SetShapesTexture texture source st)"
    by (rule SetShapesTexture_establishes_valid)
  have many: "shapes_valid (SetShapesTexture_calls calls shapes_init)"
    by (rule SetShapesTexture_calls_valid [OF shapes_init_valid])
  have eq: "SetShapesTexture texture source st =
     (if tex_id texture = 0 \<or> rec_width source = Fin 0 \<or> rec_height source = Fin 0
      then \<lparr>texShapes = \<lparr>tex_id = 1, tex_width = 1, tex_height = 1, tex_mipmaps = 1, tex_format = 7\<rparr>,
            texShapesRec = \<lparr>rec_x = Fin 0, rec_y = Fin 0, rec_width = Fin 1, rec_height = Fin 1\<rparr>\<rparr>
      else \<lparr>texShapes = texture, texShapesRec = source\<rparr>)"
    unfolding SetShapesTexture_cases shapes_init_def by (rule refl)
  from one many eq show ?thesis
    unfolding shapes_valid_def by blast
qed

section \<open>Properties of the drawing functions\<close>

subsection \<open>A ring without a hole is a circle sector\<close>

lemma float_less_asym: "(x::float32) < y \<Longrightarrow> \<not> y < x"
  by (cases x; cases y) simp_all

lemma float_pos_not_le: "Fin 0 < (y::float32) \<Longrightarrow> \<not> y \<le> Fin 0"
  by (cases y) simp_all

lemma float_nonpos_less_pos: "(x::float32) \<le> Fin 0 \<Longrightarrow> Fin 0 < y \<Longrightarrow> \<not> y < x"
  by (cases x; cases y) simp_all

text \<open>
  The block that sets the segments gives back what it is given when it is run again on
  its own result, and \<^verbatim>\<open>RL_DrawCircleSector\<close> depends on \<open>segments\<close> through it only.
\<close>

lemma arc_segments_idem:
  "arc_segments lm radius startAngle endAngle segments = Some k \<Longrightarrow>
     arc_segments lm radius startAngle endAngle k = Some k"
  by (auto simp: arc_segments_def Let_def split: option.splits if_splits)

lemma DrawCircleSector_segments_cong:
  "CircleSector_segments lm radius startAngle endAngle segments
     = CircleSector_segments lm radius startAngle endAngle segments' \<Longrightarrow>
   RL_DrawCircleSector lm quads st center radius startAngle endAngle segments color
     = RL_DrawCircleSector lm quads st center radius startAngle endAngle segments' color"
  by (simp add: RL_DrawCircleSector_def CircleSector_segments_def Let_def)

lemma DrawCircleSector_None:
  "CircleSector_segments lm radius startAngle endAngle segments = None \<Longrightarrow>
   RL_DrawCircleSector lm quads st center radius startAngle endAngle segments color = None"
  by (simp add: RL_DrawCircleSector_def CircleSector_segments_def Let_def)

lemma DrawCircleSector_normal_angles:
  "RL_DrawCircleSector lm quads st center radius startAngle endAngle segments color
     = RL_DrawCircleSector lm quads st center radius
         (if endAngle < startAngle then endAngle else startAngle)
         (if endAngle < startAngle then startAngle else endAngle) segments color"
proof (cases "endAngle < startAngle")
  case True
  then have "\<not> startAngle < endAngle" by (rule float_less_asym)
  with True show ?thesis by (simp add: RL_DrawCircleSector_def Let_def)
next
  case False
  then show ?thesis by simp
qed

text \<open>
  C3. \<^verbatim>\<open>RL_DrawRing\<close> with \<open>innerRadius \<le> 0\<close>, a positive \<open>outerRadius\<close> and
  \<open>startAngle \<noteq> endAngle\<close> makes exactly the calls of \<^verbatim>\<open>RL_DrawCircleSector\<close> with the
  same centre, \<open>outerRadius\<close>, angles, segments and colour (in both build modes, for any
  shapes texture and with any C library), hence the same sequence of vertices. In
  particular \<open>RL_DrawRing(center, 0, 5, 0, 360, segments, color)\<close> equals
  \<open>RL_DrawCircleSector(center, 5, 0, 360, segments, color)\<close>.
\<close>

theorem DrawRing_degenerates_to_sector:
  assumes "innerRadius \<le> Fin 0" and "Fin 0 < outerRadius" and "\<not> feq startAngle endAngle"
  shows "RL_DrawRing lm quads st center innerRadius outerRadius startAngle endAngle segments color
           = RL_DrawCircleSector lm quads st center outerRadius startAngle endAngle segments color
         \<and> map_option vertices
             (RL_DrawRing lm quads st center innerRadius outerRadius startAngle endAngle segments color)
           = map_option vertices
               (RL_DrawCircleSector lm quads st center outerRadius startAngle endAngle segments color)"
proof -
  define s where "s = (if endAngle < startAngle then endAngle else startAngle)"
  define e where "e = (if endAngle < startAngle then startAngle else endAngle)"
  have se: "\<not> e < s" using float_less_asym [of endAngle startAngle] by (simp add: s_def e_def)
  have r: "\<not> outerRadius \<le> Fin 0" using assms(2) by (rule float_pos_not_le)
  have norm: "RL_DrawCircleSector lm quads st center outerRadius startAngle endAngle n color
                = RL_DrawCircleSector lm quads st center outerRadius s e n color" for n
    unfolding s_def e_def by (rule DrawCircleSector_normal_angles)
  have segs: "CircleSector_segments lm outerRadius s e n = arc_segments lm outerRadius s e n" for n
    using se r by (simp add: CircleSector_segments_def)
  have ring: "RL_DrawRing lm quads st center innerRadius outerRadius startAngle endAngle segments color
      = (case arc_segments lm outerRadius s e segments of
           None \<Rightarrow> None
         | Some k \<Rightarrow> RL_DrawCircleSector lm quads st center outerRadius s e k color)"
  proof -
    have "\<not> outerRadius < innerRadius" using assms(1,2) by (rule float_nonpos_less_pos)
    with assms show ?thesis
      by (simp add: RL_DrawRing_def Let_def s_def e_def cong: option.case_cong)
  qed
  have calls: "RL_DrawRing lm quads st center innerRadius outerRadius startAngle endAngle segments color
           = RL_DrawCircleSector lm quads st center outerRadius startAngle endAngle segments color"
  proof (cases "arc_segments lm outerRadius s e segments")
    case None
    then show ?thesis
      unfolding ring norm using DrawCircleSector_None [of lm outerRadius s e segments] segs by simp
  next
    case (Some k)
    have "CircleSector_segments lm outerRadius s e k = CircleSector_segments lm outerRadius s e segments"
      unfolding segs using Some arc_segments_idem [OF Some] by simp
    from DrawCircleSector_segments_cong [OF this] Some show ?thesis
      unfolding ring norm by simp
  qed
  then show ?thesis by (simp only: simp_thms)
qed

theorem DrawRing_degenerates_to_sector_witness:
  "Fin 0 \<le> Fin 0 \<and> Fin 0 < Fin 5 \<and> \<not> feq (Fin 0) (Fin 360)
   \<and> RL_DrawRing libm_rounded True shapes_init \<lparr>vec_x = Fin 0, vec_y = Fin 0\<rparr>
        (Fin 0) (Fin 5) (Fin 0) (Fin 360) 36
        \<lparr>col_r = 255, col_g = 255, col_b = 255, col_a = 255\<rparr>
     = RL_DrawCircleSector libm_rounded True shapes_init \<lparr>vec_x = Fin 0, vec_y = Fin 0\<rparr>
        (Fin 5) (Fin 0) (Fin 360) 36
        \<lparr>col_r = 255, col_g = 255, col_b = 255, col_a = 255\<rparr>
   \<and> RL_DrawCircleSector libm_rounded True shapes_init \<lparr>vec_x = Fin 0, vec_y = Fin 0\<rparr>
        (Fin 5) (Fin 0) (Fin 360) 36
        \<lparr>col_r = 255, col_g = 255, col_b = 255, col_a = 255\<rparr> \<noteq> None"
proof -
  have "arc_segments libm_rounded (Fin 5) (Fin 0) (Fin 360) 36 = Some 36"
    by (simp add: arc_segments_def arc_minSegments_def minus_float32_def round32_small)
  then have "RL_DrawCircleSector libm_rounded True shapes_init \<lparr>vec_x = Fin 0, vec_y = Fin 0\<rparr>
        (Fin 5) (Fin 0) (Fin 360) 36
        \<lparr>col_r = 255, col_g = 255, col_b = 255, col_a = 255\<rparr> \<noteq> None"
    by (simp add: RL_DrawCircleSector_def Let_def)
  with DrawRing_degenerates_to_sector [of "Fin 0" "Fin 5" "Fin 0" "Fin 360" libm_rounded True shapes_init
        "\<lparr>vec_x = Fin 0, vec_y = Fin 0\<rparr>" 36
        "\<lparr>col_r = 255, col_g = 255, col_b = 255, col_a = 255\<rparr>"]
  show ?thesis by (simp add: feq_def)
qed

lemma sin_poly_bound:
  "\<bar>sin x - (x - x^3/6 + x^5/120 - x^7/5040 + x^9/362880 - x^11/39916800)\<bar> \<le> \<bar>x\<bar>^12/479001600"
  for x :: real
proof -
  have ivl: "{..<12::nat} = {0, 1, 2, 3, 4, 5, 6, 7, 8, 9, 10, 11}" by auto arith
  have c: "sin_coeff 0 = 0" "sin_coeff 1 = 1" "sin_coeff 2 = 0" "sin_coeff 3 = - (1/6)"
    "sin_coeff 4 = 0" "sin_coeff 5 = 1/120" "sin_coeff 6 = 0" "sin_coeff 7 = - (1/5040)"
    "sin_coeff 8 = 0" "sin_coeff 9 = 1/362880" "sin_coeff 10 = 0" "sin_coeff 11 = - (1/39916800)"
    "sin_coeff (Suc 0) = 1"
    by (simp_all add: sin_coeff_def fact_numeral)
  have "(\<Sum>m\<in>{0, 1, 2, 3, 4, 5, 6, 7, 8, 9, 10, 11::nat}. sin_coeff m * x^m)
          = x - x^3/6 + x^5/120 - x^7/5040 + x^9/362880 - x^11/39916800"
    by (simp add: c)
  then have p: "(\<Sum>m<12. sin_coeff m * x^m) = x - x^3/6 + x^5/120 - x^7/5040 + x^9/362880 - x^11/39916800"
    unfolding ivl .
  have f: "(fact 12 :: real) = 479001600" by (simp add: fact_numeral)
  show ?thesis using Maclaurin_sin_bound [of x 12] unfolding p f by simp
qed

lemma pi_lower: "314159263/100000000 < pi"
proof (rule ccontr)
  assume "\<not> 314159263/100000000 < pi"
  then have le: "pi/6 \<le> 314159263/600000000" by simp
  have "314159263/600000000 \<le> pi/2" using pi_ge_two by simp
  moreover have "- (pi/2) \<le> pi/6" using pi_ge_zero by simp
  ultimately have "sin (pi/6) \<le> sin (314159263/600000000)"
    using le by (intro sin_monotone_2pi_le) simp_all
  then have "1/2 \<le> sin (314159263/600000000 :: real)" by (simp add: sin_30)
  moreover have "sin (314159263/600000000 :: real) < 1/2"
  proof -
    define x :: real where "x = 314159263/600000000"
    have "x - x^3/6 + x^5/120 - x^7/5040 + x^9/362880 - x^11/39916800 + \<bar>x\<bar>^12/479001600 < 1/2"
      unfolding x_def by (simp add: power_divide)
    then show ?thesis using sin_poly_bound [of x] unfolding x_def [symmetric] abs_le_iff by linarith
  qed
  ultimately show False by simp
qed

lemma pi_upper: "pi < 31415927/10000000"
proof (rule ccontr)
  assume "\<not> pi < 31415927/10000000"
  then have le: "31415927/60000000 \<le> pi/6" by simp
  have "pi/6 \<le> pi/2" using pi_ge_zero by simp
  moreover have "- (pi/2) \<le> 31415927/60000000" using pi_ge_zero by (simp add: order_trans [of _ 0])
  ultimately have "sin (31415927/60000000) \<le> sin (pi/6)"
    using le by (intro sin_monotone_2pi_le) simp_all
  then have "sin (31415927/60000000 :: real) \<le> 1/2" by (simp add: sin_30)
  moreover have "1/2 < sin (31415927/60000000 :: real)"
  proof -
    define x :: real where "x = 31415927/60000000"
    have "1/2 < x - x^3/6 + x^5/120 - x^7/5040 + x^9/362880 - x^11/39916800 - \<bar>x\<bar>^12/479001600"
      unfolding x_def by (simp add: power_divide)
    then show ?thesis using sin_poly_bound [of x] unfolding x_def [symmetric] abs_le_iff by linarith
  qed
  ultimately show False by simp
qed

subsection \<open>The number of segments of a circle sector\<close>

lemma round_even_eqI:
  assumes "of_int m - 1/2 < q" and "q < of_int m + 1/2"
  shows "round_even q = m"
proof -
  have "\<lfloor>q\<rfloor> = m \<or> \<lfloor>q\<rfloor> = m - 1" using assms by linarith
  then show ?thesis
  proof
    assume f: "\<lfloor>q\<rfloor> = m"
    then show ?thesis unfolding round_even_def using assms by simp
  next
    assume f: "\<lfloor>q\<rfloor> = m - 1"
    then show ?thesis unfolding round_even_def using assms by simp
  qed
qed

lemma PI_val: "PI = Fin (13176795/4194304)"
  unfolding PI_def
  using round32_eval [of 127 "157079632679489661923/50000000000000000000" "13176795"]
  by (simp add: round_even_def)

lemma round32_pi: "round32 pi = Fin (13176795/4194304)"
proof -
  have "round_even (pi*2^149/2^127) = 13176795"
  proof (rule round_even_eqI)
    have "(2::real)^149/2^127 = 2^22" by simp
    then have e: "pi*2^149/2^127 = pi*4194304" by simp
    show "of_int 13176795 - 1/2 < pi*2^149/2^127" unfolding e using pi_lower by simp
    show "pi*2^149/2^127 < of_int 13176795 + 1/2" unfolding e using pi_upper by simp
  qed
  moreover have "2^(127 + 23) \<le> \<bar>pi\<bar>*2^149" using pi_lower by simp
  moreover have "\<bar>pi\<bar>*2^149 < 2^(127 + 24)" using pi_upper by simp
  ultimately show ?thesis using round32_eval [of 127 pi 13176795] by simp
qed

text \<open>
  C1, as stated: when the segments asked for are below \<open>minSegments\<close>, the number
  of segments used is at least \<open>minSegments\<close>. It fails for a small radius:
  \<^verbatim>\<open>RL_DrawCircleSector(center, 0.5, 0, 360, 0, color)\<close> has \<open>minSegments = 4\<close> and, with
  \<open>th = acosf(-1)\<close>, the float nearest to \<open>pi\<close>, walks the arc with
  \<open>(int)(360*ceilf(2*PI/th)/360) = 2\<close> segments.
\<close>

theorem CircleSector_segments_counterexample:
  "CircleSector_minSegments (Fin 0) (Fin 360) = Some 4
   \<and> (0::int) < 4
   \<and> CircleSector_segments libm_rounded (Fin (1/2)) (Fin 0) (Fin 360) 0 = Some 2
   \<and> acosf libm_rounded (Fin (- 1)) = PI"
proof -
  have m: "arc_minSegments (Fin 0) (Fin 360) = Some 4"
    by (simp add: arc_minSegments_def minus_float32_def round32_small)
  have th: "acosf libm_rounded (Fin (- 1)) = Fin (13176795/4194304)"
    by (simp add: libm_rounded_def round32_pi)
  have w: "Fin 2*powf libm_rounded (Fin 1 - SMOOTH_CIRCLE_ERROR_RATE/Fin (1/2)) (Fin 2) - Fin 1 = Fin (- 1)"
    by (simp add: libm_rounded_def SMOOTH_CIRCLE_ERROR_RATE_def minus_float32_def round32_small)
  have p2: "round32 (13176795/2097152) = Fin (13176795/2097152)"
    using round32_dyadic [of "13176795/2097152" 21] by simp
  have turn: "arc_turn_segments libm_rounded (Fin (1/2)) = Fin 2"
    unfolding arc_turn_segments_def Let_def w th PI_val by (simp add: p2 round32_small)
  have d: "arc_error_segments libm_rounded (Fin (1/2)) (Fin 0) (Fin 360) = Some 2"
    unfolding arc_error_segments_def turn by (simp add: minus_float32_def round32_small)
  show ?thesis
    unfolding CircleSector_minSegments_def CircleSector_segments_def Let_def arc_segments_def
    by (simp add: m d th PI_val)
qed

lemma nearest32_exact_top: "nearest32 (of_int m*2^253/2^149) = of_int m*2^253/2^149"
proof -
  define r :: real where "r = of_int m*2^253/2^149"
  define b where "b = binade \<bar>r\<bar> 253"
  have bk: "b \<le> 253" unfolding b_def by (rule binade_le)
  have pk: "(2::real)^253 = 2^(253 - b)*2^b" using bk by (simp flip: power_add)
  have q: "r*2^149/2^b = of_int (m*2^(253 - b))"
    unfolding r_def pk by (simp del: power_numeral)
  have "nearest32 r = of_int (m*2^(253 - b))*2^b/2^149"
    unfolding nearest32_def b_def [symmetric] q round_even_of_int ..
  also have "\<dots> = r"
    unfolding r_def pk by (simp del: power_numeral)
  finally show ?thesis unfolding r_def .
qed

lemma nearest32_int_pow2:
  assumes "\<bar>a\<bar> < 2^24"
  shows "nearest32 (of_int a*2^i) = of_int a*2^i"
proof (cases "i \<le> 104")
  case True
  have "(2::real)^(i + 149) = 2^i*2^149" by (simp add: power_add del: power_numeral)
  then have e: "of_int a*2^(i + 149)/2^149 = (of_int a*2^i :: real)" by (simp del: power_numeral)
  have "nearest32 (of_int a*2^(i + 149)/2^149) = of_int a*2^(i + 149)/2^149"
    using True by (intro nearest32_exact assms) simp
  then show ?thesis unfolding e .
next
  case False
  then have i: "i = (i - 104) + 104" by simp
  have "(2::real)^253/2^149 = 2^104" by simp
  then have "of_int (a*2^(i - 104))*((2::real)^253/2^149) = of_int a*2^(i - 104)*2^104"
    by (simp del: power_numeral)
  then have "of_int (a*2^(i - 104))*2^253/2^149 = (of_int a*2^(i - 104)*2^104 :: real)"
    by (simp only: times_divide_eq_right)
  also have "\<dots> = of_int a*2^i" by (subst (2) i) (simp only: power_add mult.assoc)
  finally have e: "of_int (a*2^(i - 104))*2^253/2^149 = (of_int a*2^i :: real)" .
  show ?thesis using nearest32_exact_top [of "a*2^(i - 104)"] unfolding e .
qed

lemma pow2_bracket:
  fixes x :: real
  assumes "1 < x"
  shows "\<exists>j. x \<le> 2^j \<and> 2^j < 2*x"
proof -
  have ex: "\<exists>n. x \<le> 2^n" using real_arch_pow [of 2 x] by (auto intro: less_imp_le)
  define j where "j = (LEAST n. x \<le> 2^n)"
  have j: "x \<le> 2^j" unfolding j_def using ex by (rule LeastI_ex)
  have "j \<noteq> 0" using j assms by (intro notI) simp
  then obtain i where i: "j = Suc i" by (cases j) auto
  have "\<not> x \<le> 2^i" using not_less_Least [of i "\<lambda>n. x \<le> 2^n"] i unfolding j_def by simp
  then have "2^j < 2*x" unfolding i by simp
  with j show ?thesis by blast
qed

lemma arc_segments_turn_8:
  assumes m: "arc_minSegments s e = Some m"
    and d: "arc_error_segments lm r s e = Some d"
    and pos: "0 < d"
    and turn: "Fin 8 \<le> arc_turn_segments lm r"
  shows "m \<le> d"
proof -
  define span where "span = e - s"
  define N where "N = arc_turn_segments lm r"
  have m': "int_of_float (ceilf (span/Fin 90)) = Some m"
    using m unfolding arc_minSegments_def span_def .
  have d': "int_of_float (span*N/Fin 360) = Some d"
    using d unfolding arc_error_segments_def span_def N_def .
  obtain sp where sp: "span = Fin sp"
    using m' by (cases span) simp_all
  obtain q where q: "round32 (sp/90) = Fin q"
    using m' unfolding sp by (cases "round32 (sp/90)") simp_all
  have mq: "m = \<lceil>q\<rceil>"
    using m' unfolding sp by (simp add: q split: if_splits)
  obtain n where n: "N = Fin n" "8 \<le> n"
    using turn d' unfolding N_def [symmetric] sp by (cases N) (simp_all split: if_splits)
  obtain w where w: "round32 (sp*n) = Fin w"
    using d' unfolding sp n by (cases "round32 (sp*n)") simp_all
  obtain v where v: "round32 (w/360) = Fin v"
    using d' unfolding sp n by (cases "round32 (w/360)") (simp_all add: w)
  have "d = (if 0 \<le> v then \<lfloor>v\<rfloor> else \<lceil>v\<rceil>)"
    using d' unfolding sp n by (simp add: w v split: if_splits)
  moreover have "\<lceil>v\<rceil> \<le> 0" if "\<not> 0 \<le> v" using that by (simp add: ceiling_le_iff)
  ultimately have dv: "d = \<lfloor>v\<rfloor>" using pos by (auto split: if_splits)
  have q': "q = nearest32 (sp/90)" using round32_Fin [OF q] by simp
  have w': "w = nearest32 (sp*n)" using round32_Fin [OF w] by simp
  have v': "v = nearest32 (w/360)" using round32_Fin [OF v] by simp
  show ?thesis
  proof (cases "sp/90 \<le> 1")
    case True
    have "nearest32 (of_int 1*2^0) = of_int 1*2^0" by (rule nearest32_int_pow2) simp
    then have "nearest32 1 = 1" by simp
    with True have "q \<le> 1" unfolding q' by (intro nearest32_le)
    then have "\<lceil>q\<rceil> \<le> 1" by (simp add: ceiling_le_iff)
    then show ?thesis unfolding mq using pos by linarith
  next
    case False
    then have x: "1 < sp/90" by simp
    then obtain j where j: "sp/90 \<le> 2^j" "2^j < 2*(sp/90)" using pow2_bracket by blast
    have c: "nearest32 (2^j) = 2^j"
      using nearest32_int_pow2 [of 1 j] by simp
    have c360: "nearest32 (45*2^(j + 3)) = 45*2^(j + 3)"
      using nearest32_int_pow2 [of 45 "j + 3"] by simp
    have "q \<le> 2^j" unfolding q' using j(1) c by (rule nearest32_le)
    then have "q \<le> of_int (2^j)" by simp
    then have 1: "\<lceil>q\<rceil> \<le> 2^j" unfolding ceiling_le_iff .
    have sp0: "0 < sp" using x by simp
    have "45*2^(j + 3) = 360*(2::real)^j" by (simp add: power_add)
    also have "\<dots> < 8*sp" using j(2) by simp
    also have "\<dots> \<le> sp*n" using n(2) sp0 by (simp add: mult.commute)
    finally have "45*2^(j + 3) \<le> sp*n" by simp
    then have "45*2^(j + 3) \<le> w" unfolding w' using c360 by (rule nearest32_ge)
    then have "2^j \<le> w/360" by (simp add: power_add)
    then have "2^j \<le> v" unfolding v' using c by (rule nearest32_ge)
    then have "of_int (2^j) \<le> v" by simp
    then have 2: "2^j \<le> \<lfloor>v\<rfloor>" unfolding le_floor_iff .
    show ?thesis unfolding mq dv using 1 2 by (rule order_trans)
  qed
qed

text \<open>
  C1, amended: when the segments asked for are below \<open>minSegments\<close>, the
  \<open>(int)ceilf((endAngle - startAngle)/90)\<close> that the code computes in float arithmetic after
  it has put the angles in order, and the conversions to \<^verbatim>\<open>int\<close> are defined, the number
  of segments used to walk the arc is the count derived from the error rate,
  \<open>(int)((endAngle - startAngle)*ceilf(2*PI/th)/360)\<close>, when that is positive, and
  \<open>minSegments\<close> otherwise. It is at least 1 when \<open>minSegments\<close> is, and it is at least
  \<open>minSegments\<close> whenever \<open>ceilf(2*PI/th)\<close>, the number of segments that the error rate
  gives a full turn, is 8 or more.
\<close>

theorem CircleSector_segments_at_least:
  assumes "CircleSector_minSegments startAngle endAngle = Some m"
    and "segments < m"
    and "CircleSector_segments lm radius startAngle endAngle segments = Some k"
  shows "(case CircleSector_error_segments lm radius startAngle endAngle of
            None \<Rightarrow> False
          | Some d \<Rightarrow> k = (if d \<le> 0 then m else d))
         \<and> (1 \<le> m \<longrightarrow> 1 \<le> k)
         \<and> (Fin 8 \<le> CircleSector_turn_segments lm radius \<longrightarrow> m \<le> k)"
proof -
  define r where "r = (if radius \<le> Fin 0 then round32 (1/10) else radius)"
  define s where "s = (if endAngle < startAngle then endAngle else startAngle)"
  define e where "e = (if endAngle < startAngle then startAngle else endAngle)"
  have m: "arc_minSegments s e = Some m"
    using assms(1) unfolding CircleSector_minSegments_def Let_def s_def e_def .
  have k: "arc_segments lm r s e segments = Some k"
    using assms(3) unfolding CircleSector_segments_def Let_def r_def s_def e_def .
  obtain d where d: "arc_error_segments lm r s e = Some d" and kd: "k = (if d \<le> 0 then m else d)"
    using k assms(2) unfolding arc_segments_def m by (auto split: option.splits if_splits)
  have err: "CircleSector_error_segments lm radius startAngle endAngle = Some d"
    using d unfolding CircleSector_error_segments_def Let_def r_def s_def e_def .
  have turn: "CircleSector_turn_segments lm radius = arc_turn_segments lm r"
    unfolding CircleSector_turn_segments_def r_def ..
  have "m \<le> k" if "Fin 8 \<le> arc_turn_segments lm r"
  proof (cases "d \<le> 0")
    case True then show ?thesis using kd by simp
  next
    case False
    then have "m \<le> d" using m d that by (intro arc_segments_turn_8 [of s e m lm r d]) simp_all
    then show ?thesis using kd False by simp
  qed
  then show ?thesis unfolding err turn using kd by auto
qed

lemma one_minus_cos_le: "1 - cos x \<le> x\<^sup>2/2" for x :: real
proof -
  have "\<bar>sin (x/2)\<bar> \<le> \<bar>x/2\<bar>" by (rule abs_sin_x_le_abs_x)
  then have "\<bar>sin (x/2)\<bar>\<^sup>2 \<le> \<bar>x/2\<bar>\<^sup>2" by (intro power_mono) simp_all
  then have "(sin (x/2))\<^sup>2 \<le> x\<^sup>2/4" by (simp add: power_divide)
  moreover have "cos x = 1 - 2*(sin (x/2))\<^sup>2" using cos_double_sin [of "x/2"] by simp
  ultimately show ?thesis by simp
qed

text \<open>
  With a radius of 10 and the library that rounds to nearest, the angle \<open>th\<close> is between
  \<open>1/2\<close> and the float nearest to \<open>pi/4\<close>, and the error rate gives a full turn between 8
  and 16 segments.
\<close>

lemma arc_turn_segments_radius_10:
  "\<exists>n::int. arc_turn_segments libm_rounded (Fin 10) = Fin (of_int n) \<and> 8 \<le> n \<and> n \<le> 16"
proof -
  have a: "round32 (1/20) = Fin (13421773/268435456)"
    using round32_eval [of 121 "1/20" "13421773"] by (simp add: round_even_def)
  have b: "round32 (255013683/268435456) = Fin (15938355/16777216)"
    using round32_eval [of 125 "255013683/268435456" "15938355"] by (simp add: round_even_def)
  have c: "round32 (254031160106025/281474976710656) = Fin (15141437/16777216)"
    using round32_eval [of 125 "254031160106025/281474976710656" "15141437"] by (simp add: round_even_def)
  have d: "round32 (15141437/8388608) = Fin (15141437/8388608)"
    using round32_dyadic [of "15141437/8388608" 23] by simp
  have e: "round32 (6752829/8388608) = Fin (6752829/8388608)"
    using round32_dyadic [of "6752829/8388608" 23] by simp
  have w: "Fin 2*powf libm_rounded (Fin 1 - SMOOTH_CIRCLE_ERROR_RATE/Fin 10) (Fin 2) - Fin 1
             = Fin (6752829/8388608)"
    by (simp add: libm_rounded_def SMOOTH_CIRCLE_ERROR_RATE_def minus_float32_def a b c d e)
  define x :: real where "x = 6752829/8388608"
  have x: "sqrt 2/2 \<le> x" "x \<le> cos (1/2)" "- 1 \<le> x" "x \<le> 1"
  proof -
    have "sqrt 2 \<le> sqrt ((2*x)\<^sup>2)" unfolding real_sqrt_le_iff x_def by (simp add: power_divide)
    then show "sqrt 2/2 \<le> x" unfolding x_def by simp
    have "7/8 \<le> cos (1/2 :: real)" using one_minus_cos_le [of "1/2"] by (simp add: power_divide)
    then show "x \<le> cos (1/2)" unfolding x_def by simp
    show "- 1 \<le> x" "x \<le> 1" unfolding x_def by simp_all
  qed
  have "0 \<le> sqrt 2" by simp
  then have "- 2 \<le> sqrt 2" by linarith
  then have up: "arccos x \<le> pi/4"
    using arccos_le_arccos [of "sqrt 2/2" x] x arccos_cos [of "pi/4"] by (simp add: cos_45)
  have low: "1/2 \<le> arccos x"
  proof -
    have "\<bar>cos (1/2 :: real)\<bar> \<le> 1" by (rule abs_cos_le_one)
    then have "arccos (cos (1/2)) \<le> arccos x"
      using x by (intro arccos_le_arccos) (simp_all add: abs_le_iff)
    moreover have "arccos (cos (1/2)) = 1/2"
      using pi_ge_two by (intro arccos_cos) simp_all
    ultimately show ?thesis by simp
  qed
  have p4: "round32 (13176795/16777216) = Fin (13176795/16777216)"
    using round32_dyadic [of "13176795/16777216" 24] by simp
  have "arccos x \<le> 13176795/16777216" using up pi_upper by simp
  then have thu: "round32 (arccos x) \<le> Fin (13176795/16777216)" using p4 by (rule round32_le)
  have "round32 (1/2) = Fin (1/2)" by (simp add: round32_small)
  with low have thl: "Fin (1/2) \<le> round32 (arccos x)" by (rule round32_ge)
  obtain t where t: "round32 (arccos x) = Fin t" "1/2 \<le> t" "t \<le> 13176795/16777216"
    using thu thl by (cases "round32 (arccos x)") simp_all
  have th: "acosf libm_rounded (Fin x) = Fin t"
    using x(3,4) t(1) by (simp add: libm_rounded_def)
  have p2: "round32 (13176795/2097152) = Fin (13176795/2097152)"
    using round32_dyadic [of "13176795/2097152" 21] by simp
  have q: "Fin 2*PI/Fin t = round32 (13176795/2097152/t)"
    using t(2) unfolding PI_val by (simp add: p2)
  have "8 \<le> 13176795/2097152/t" using t(2,3) by (simp add: field_simps)
  moreover have "round32 8 = Fin 8" by (simp add: round32_small)
  ultimately have ql: "Fin 8 \<le> round32 (13176795/2097152/t)" by (rule round32_ge)
  have "13176795/2097152/t \<le> 16" using t(2) by (simp add: field_simps)
  moreover have "round32 16 = Fin 16" by (simp add: round32_small)
  ultimately have qu: "round32 (13176795/2097152/t) \<le> Fin 16" by (rule round32_le)
  obtain n where n: "round32 (13176795/2097152/t) = Fin n" "8 \<le> n" "n \<le> 16"
    using ql qu by (cases "round32 (13176795/2097152/t)") simp_all
  have "arc_turn_segments libm_rounded (Fin 10) = Fin (of_int \<lceil>n\<rceil>)"
    unfolding arc_turn_segments_def Let_def w x_def [symmetric] th q n(1) by simp
  moreover have "8 \<le> \<lceil>n\<rceil>" using n(2) by (simp add: le_ceiling_iff)
  moreover have "\<lceil>n\<rceil> \<le> 16" using n(3) by (simp add: ceiling_le_iff)
  ultimately show ?thesis by blast
qed

theorem CircleSector_segments_at_least_witness:
  "CircleSector_minSegments (Fin 0) (Fin 360) = Some 4
   \<and> (0::int) < 4
   \<and> Fin 8 \<le> CircleSector_turn_segments libm_rounded (Fin 10)
   \<and> (\<exists>k. CircleSector_segments libm_rounded (Fin 10) (Fin 0) (Fin 360) 0 = Some k
          \<and> CircleSector_error_segments libm_rounded (Fin 10) (Fin 0) (Fin 360) = Some k
          \<and> 4 \<le> k)"
proof -
  obtain n :: int where n: "arc_turn_segments libm_rounded (Fin 10) = Fin (of_int n)" "8 \<le> n" "n \<le> 16"
    using arc_turn_segments_radius_10 by blast
  have m: "arc_minSegments (Fin 0) (Fin 360) = Some 4"
    by (simp add: arc_minSegments_def minus_float32_def round32_small)
  have "\<bar>360*n\<bar> < 2^24" using n(2,3) by simp
  then have "round32 (of_int (360*n)) = Fin (of_int (360*n))"
    using round32_exact [of "360*n" 149] by simp
  then have r1: "round32 (360*of_int n) = Fin (360*of_int n)" by simp
  have "\<bar>n\<bar> < 2^24" using n(2,3) by simp
  then have r2: "round32 (of_int n) = Fin (of_int n)"
    using round32_exact [of n 149] by simp
  have d: "arc_error_segments libm_rounded (Fin 10) (Fin 0) (Fin 360) = Some n"
    unfolding arc_error_segments_def n(1) using n(2,3)
    by (simp add: minus_float32_def round32_small r1 r2)
  have k: "CircleSector_segments libm_rounded (Fin 10) (Fin 0) (Fin 360) 0 = Some n"
    using n(2) by (simp add: CircleSector_segments_def arc_segments_def m d)
  have mm: "CircleSector_minSegments (Fin 0) (Fin 360) = Some 4"
    by (simp add: CircleSector_minSegments_def m)
  have t: "Fin 8 \<le> CircleSector_turn_segments libm_rounded (Fin 10)"
    unfolding CircleSector_turn_segments_def using n by simp
  have e: "CircleSector_error_segments libm_rounded (Fin 10) (Fin 0) (Fin 360) = Some n"
    by (simp add: CircleSector_error_segments_def d)
  have "4 \<le> n"
    using CircleSector_segments_at_least [OF mm _ k] t by simp
  then show ?thesis using mm t k e by simp
qed

text \<open>
  The bound 8 on the segments of a full turn cannot be lowered. With a radius of 4 and the
  library that rounds to nearest, \<open>2*powf(1 - 0.5/4, 2) - 1\<close> is \<open>17/32\<close>, the angle
  \<open>th\<close> is between \<open>29/32\<close> and \<open>33/32\<close> and the error rate gives a full turn 7
  segments; a sector from 0 to 91 degrees, whose \<open>minSegments\<close> is 2, is then walked with
  \<open>(int)(91*7/360) = 1\<close> segment.
\<close>

lemma arc_turn_segments_radius_4: "arc_turn_segments libm_rounded (Fin 4) = Fin 7"
proof -
  have w: "Fin 2*powf libm_rounded (Fin 1 - SMOOTH_CIRCLE_ERROR_RATE/Fin 4) (Fin 2) - Fin 1
             = Fin (17/32)"
    by (simp add: libm_rounded_def SMOOTH_CIRCLE_ERROR_RATE_def minus_float32_def round32_small)
  define x :: real where "x = 17/32"
  have low: "29/32 \<le> arccos x"
  proof -
    have "x \<le> cos (29/32)" using one_minus_cos_le [of "29/32"] unfolding x_def
      by (simp add: power_divide)
    moreover have "\<bar>cos (29/32 :: real)\<bar> \<le> 1" by (rule abs_cos_le_one)
    ultimately have "arccos (cos (29/32)) \<le> arccos x"
      unfolding x_def by (intro arccos_le_arccos) (simp_all add: abs_le_iff)
    moreover have "arccos (cos (29/32)) = 29/32"
      using pi_ge_two by (intro arccos_cos) simp_all
    ultimately show ?thesis by simp
  qed
  have up: "arccos x \<le> 33/32"
  proof -
    have "\<bar>sin (33/64 :: real) - (33/64 - (33/64)^3/6 + (33/64)^5/120 - (33/64)^7/5040
             + (33/64)^9/362880 - (33/64)^11/39916800)\<bar> \<le> \<bar>33/64\<bar>^12/479001600"
      by (rule sin_poly_bound)
    then have s: "31/64 \<le> sin (33/64 :: real)"
      unfolding abs_le_iff by (simp add: power_divide)
    have "0 \<le> sin (33/64 :: real)" using s by linarith
    then have "(31/64)\<^sup>2 \<le> (sin (33/64 :: real))\<^sup>2"
      using s by (intro power_mono) simp_all
    moreover have "cos (33/32 :: real) = 1 - 2*(sin (33/64))\<^sup>2"
      using cos_double_sin [of "33/64 :: real"] by simp
    ultimately have c: "cos (33/32) \<le> x" unfolding x_def by (simp add: power_divide)
    have "- 1 \<le> cos (33/32 :: real)" by simp
    then have "arccos x \<le> arccos (cos (33/32))"
      using c unfolding x_def by (intro arccos_le_arccos) simp_all
    moreover have "arccos (cos (33/32)) = 33/32"
      using pi_ge_two by (intro arccos_cos) simp_all
    ultimately show ?thesis by simp
  qed
  have "round32 (33/32) = Fin (33/32)" by (simp add: round32_small)
  with up have thu: "round32 (arccos x) \<le> Fin (33/32)" by (rule round32_le)
  have "round32 (29/32) = Fin (29/32)" by (simp add: round32_small)
  with low have thl: "Fin (29/32) \<le> round32 (arccos x)" by (rule round32_ge)
  obtain t where t: "round32 (arccos x) = Fin t" "29/32 \<le> t" "t \<le> 33/32"
    using thu thl by (cases "round32 (arccos x)") simp_all
  have th: "acosf libm_rounded (Fin x) = Fin t"
    using t(1) unfolding x_def by (simp add: libm_rounded_def)
  have p2: "round32 (13176795/2097152) = Fin (13176795/2097152)"
    using round32_dyadic [of "13176795/2097152" 21] by simp
  have q: "Fin 2*PI/Fin t = round32 (13176795/2097152/t)"
    using t(2) unfolding PI_val by (simp add: p2)
  have "97/16 \<le> 13176795/2097152/t" using t(2,3) by (simp add: field_simps)
  moreover have "round32 (97/16) = Fin (97/16)" by (simp add: round32_small)
  ultimately have ql: "Fin (97/16) \<le> round32 (13176795/2097152/t)" by (rule round32_ge)
  have "13176795/2097152/t \<le> 7" using t(2) by (simp add: field_simps)
  moreover have "round32 7 = Fin 7" by (simp add: round32_small)
  ultimately have qu: "round32 (13176795/2097152/t) \<le> Fin 7" by (rule round32_le)
  obtain n where n: "round32 (13176795/2097152/t) = Fin n" "97/16 \<le> n" "n \<le> 7"
    using ql qu by (cases "round32 (13176795/2097152/t)") simp_all
  have "6 < n" using n(2) by simp
  then have "\<lceil>n\<rceil> = 7" using n(3) by (simp add: ceiling_eq_iff)
  then show ?thesis
    unfolding arc_turn_segments_def Let_def w x_def [symmetric] th q n(1) by simp
qed

lemma CircleSector_segments_turn_7:
  "CircleSector_turn_segments libm_rounded (Fin 4) = Fin 7
   \<and> CircleSector_minSegments (Fin 0) (Fin 91) = Some 2
   \<and> CircleSector_segments libm_rounded (Fin 4) (Fin 0) (Fin 91) 0 = Some 1"
proof -
  have a: "round32 (91/90) = Fin (8481815/8388608)"
    using round32_eval [of 126 "91/90" "8481815"] by (simp add: round_even_def)
  have b: "round32 (637/360) = Fin (1855397/1048576)"
    using round32_eval [of 126 "637/360" "14843176"] by (simp add: round_even_def)
  have c: "\<lceil>8481815/8388608 :: real\<rceil> = 2" by (simp add: ceiling_eq_iff)
  have f: "\<lfloor>1855397/1048576 :: real\<rfloor> = 1" by (simp add: floor_eq_iff)
  have m: "arc_minSegments (Fin 0) (Fin 91) = Some 2"
    by (simp add: arc_minSegments_def minus_float32_def round32_small a c)
  have d: "arc_error_segments libm_rounded (Fin 4) (Fin 0) (Fin 91) = Some 1"
    unfolding arc_error_segments_def arc_turn_segments_radius_4
    by (simp add: minus_float32_def round32_small b f)
  show ?thesis
    unfolding CircleSector_turn_segments_def CircleSector_minSegments_def
      CircleSector_segments_def Let_def arc_segments_def
    by (simp add: m d arc_turn_segments_radius_4)
qed

text \<open>
  \<open>minSegments\<close> is the ceiling of the quotient that the code computes, which is rounded:
  from \<open>-1/2^30\<close> to 90 degrees the span \<open>90 + 1/2^30\<close> is rounded to 90 and
  \<open>minSegments\<close> is 1, where the ceiling of the exact quotient is 2.
\<close>

lemma CircleSector_minSegments_rounded:
  "CircleSector_minSegments (Fin (- (1/2^30))) (Fin 90) = Some 1
   \<and> \<lceil>(90 - - (1/2^30))/90 :: real\<rceil> = 2"
proof -
  have a: "round32 (96636764161/1073741824) = Fin 90"
    using round32_eval [of 132 "96636764161/1073741824" "11796480"] by (simp add: round_even_def)
  have m: "arc_minSegments (Fin (- (1/2^30))) (Fin 90) = Some 1"
    by (simp add: arc_minSegments_def minus_float32_def round32_small a)
  have "\<lceil>(90 - - (1/2^30))/90 :: real\<rceil> = 2" by (simp add: ceiling_eq_iff)
  then show ?thesis unfolding CircleSector_minSegments_def Let_def using m by simp
qed

section \<open>The strip of a quadratic bezier line\<close>

lemma LineBezierQuad_body_Some:
  assumes "2*i + 1 < length points"
  shows "LineBezierQuad_body lm startPos endPos controlPos thick i previous points
           = Some (LineBezierQuad_current lm startPos endPos controlPos i,
                   (if i = 1
                    then points[0 := rim_even previous previous
                                       (LineBezierQuad_current lm startPos endPos controlPos i) thick,
                                1 := rim_odd previous previous
                                       (LineBezierQuad_current lm startPos endPos controlPos i) thick]
                    else points)
                     [2*i + 1 := rim_odd (LineBezierQuad_current lm startPos endPos controlPos i) previous
                                   (LineBezierQuad_current lm startPos endPos controlPos i) thick,
                      2*i := rim_even (LineBezierQuad_current lm startPos endPos controlPos i) previous
                               (LineBezierQuad_current lm startPos endPos controlPos i) thick])"
  using assms unfolding LineBezierQuad_body_def rim_even_def rim_odd_def Let_def by simp

lemma LineBezierQuad_loop_tail:
  assumes "2 \<le> i" and "2*(i + n) \<le> length points"
  shows "\<exists>pts. LineBezierQuad_loop lm startPos endPos controlPos thick n i previous points
                  = Some (case n of 0 \<Rightarrow> previous
                          | Suc m \<Rightarrow> LineBezierQuad_current lm startPos endPos controlPos (i + m), pts)
               \<and> length pts = length points
               \<and> (\<forall>j<2*i. pts ! j = points ! j)
               \<and> (\<forall>m. n = Suc m \<longrightarrow>
                    pts ! (2*(i + m))
                      = rim_even (LineBezierQuad_current lm startPos endPos controlPos (i + m))
                          (case m of 0 \<Rightarrow> previous
                           | Suc l \<Rightarrow> LineBezierQuad_current lm startPos endPos controlPos (i + l))
                          (LineBezierQuad_current lm startPos endPos controlPos (i + m)) thick
                    \<and> pts ! (2*(i + m) + 1)
                      = rim_odd (LineBezierQuad_current lm startPos endPos controlPos (i + m))
                          (case m of 0 \<Rightarrow> previous
                           | Suc l \<Rightarrow> LineBezierQuad_current lm startPos endPos controlPos (i + l))
                          (LineBezierQuad_current lm startPos endPos controlPos (i + m)) thick)"
  using assms
proof (induction n arbitrary: i previous points)
  case 0
  then show ?case by simp
next
  case (Suc n)
  let ?cur = "LineBezierQuad_current lm startPos endPos controlPos"
  define points2 where
    "points2 = points[2*i + 1 := rim_odd (?cur i) previous (?cur i) thick,
                      2*i := rim_even (?cur i) previous (?cur i) thick]"
  have len: "2*i + 1 < length points" using Suc.prems(2) by simp
  have body: "LineBezierQuad_body lm startPos endPos controlPos thick i previous points
                = Some (?cur i, points2)"
    using LineBezierQuad_body_Some [OF len, of lm startPos endPos controlPos thick previous]
      Suc.prems(1) unfolding points2_def by simp
  have l2: "length points2 = length points" unfolding points2_def by simp
  have "2 \<le> i + 1" "2*(i + 1 + n) \<le> length points2" using Suc.prems l2 by simp_all
  from Suc.IH [OF this, of "?cur i"]
  obtain pts where pts:
    "LineBezierQuad_loop lm startPos endPos controlPos thick n (i + 1) (?cur i) points2
       = Some (case n of 0 \<Rightarrow> ?cur i | Suc m \<Rightarrow> ?cur (i + 1 + m), pts)"
    "length pts = length points2"
    "\<forall>j<2*(i + 1). pts ! j = points2 ! j"
    "\<forall>m. n = Suc m \<longrightarrow>
       pts ! (2*(i + 1 + m))
         = rim_even (?cur (i + 1 + m)) (case m of 0 \<Rightarrow> ?cur i | Suc l \<Rightarrow> ?cur (i + 1 + l))
             (?cur (i + 1 + m)) thick
       \<and> pts ! (2*(i + 1 + m) + 1)
         = rim_odd (?cur (i + 1 + m)) (case m of 0 \<Rightarrow> ?cur i | Suc l \<Rightarrow> ?cur (i + 1 + l))
             (?cur (i + 1 + m)) thick"
    by blast
  have res: "LineBezierQuad_loop lm startPos endPos controlPos thick (Suc n) i previous points
               = Some (?cur (i + n), pts)"
    using body pts(1) by (cases n) simp_all
  have keep: "\<forall>j<2*i. pts ! j = points ! j"
  proof (intro allI impI)
    fix j assume j: "j < 2*i"
    then have "pts ! j = points2 ! j" using pts(3) by simp
    also have "\<dots> = points ! j" unfolding points2_def using j by simp
    finally show "pts ! j = points ! j" .
  qed
  have last: "pts ! (2*(i + n))
                = rim_even (?cur (i + n)) (case n of 0 \<Rightarrow> previous | Suc l \<Rightarrow> ?cur (i + l))
                    (?cur (i + n)) thick
              \<and> pts ! (2*(i + n) + 1)
                = rim_odd (?cur (i + n)) (case n of 0 \<Rightarrow> previous | Suc l \<Rightarrow> ?cur (i + l))
                    (?cur (i + n)) thick"
  proof (cases n)
    case 0
    have "pts ! (2*i) = points2 ! (2*i)" "pts ! (2*i + 1) = points2 ! (2*i + 1)"
      using pts(3) by simp_all
    then show ?thesis using 0 len unfolding points2_def by simp
  next
    case (Suc m)
    then show ?thesis using pts(4) by (cases m) simp_all
  qed
  show ?case
    using res l2 pts(2) keep last by simp
qed


lemma LineBezierQuad_points_ends:
  "\<exists>points. LineBezierQuad_points lm startPos endPos controlPos thick = Some points
      \<and> length points = 50
      \<and> points ! 0 = rim_even startPos startPos
                       (LineBezierQuad_current lm startPos endPos controlPos 1) thick
      \<and> points ! 1 = rim_odd startPos startPos
                       (LineBezierQuad_current lm startPos endPos controlPos 1) thick
      \<and> points ! 48 = rim_even (LineBezierQuad_current lm startPos endPos controlPos 24)
                        (LineBezierQuad_current lm startPos endPos controlPos 23)
                        (LineBezierQuad_current lm startPos endPos controlPos 24) thick
      \<and> points ! 49 = rim_odd (LineBezierQuad_current lm startPos endPos controlPos 24)
                        (LineBezierQuad_current lm startPos endPos controlPos 23)
                        (LineBezierQuad_current lm startPos endPos controlPos 24) thick"
proof -
  let ?cur = "LineBezierQuad_current lm startPos endPos controlPos"
  define points0 where "points0 = replicate 50 \<lparr>vec_x = Fin 0, vec_y = Fin 0\<rparr>"
  define points2 where
    "points2 = points0[0 := rim_even startPos startPos (?cur 1) thick,
                       1 := rim_odd startPos startPos (?cur 1) thick,
                       3 := rim_odd (?cur 1) startPos (?cur 1) thick,
                       2 := rim_even (?cur 1) startPos (?cur 1) thick]"
  have l0: "length points0 = 50" unfolding points0_def by simp
  have l2: "length points2 = 50" unfolding points2_def using l0 by simp
  have "2*1 + 1 < length points0" using l0 by simp
  from LineBezierQuad_body_Some [OF this, of lm startPos endPos controlPos thick startPos]
  have body: "LineBezierQuad_body lm startPos endPos controlPos thick 1 startPos points0
                = Some (?cur 1, points2)"
    unfolding points2_def by simp
  have "(2::nat) \<le> 2" "2*(2 + 23) \<le> length points2" using l2 by simp_all
  from LineBezierQuad_loop_tail [OF this, of lm startPos endPos controlPos thick "?cur 1"]
  obtain pts where pts:
    "LineBezierQuad_loop lm startPos endPos controlPos thick 23 2 (?cur 1) points2
       = Some (case (23::nat) of 0 \<Rightarrow> ?cur 1 | Suc m \<Rightarrow> ?cur (2 + m), pts)"
    "length pts = length points2"
    "\<forall>j<2*2. pts ! j = points2 ! j"
    "\<forall>m. (23::nat) = Suc m \<longrightarrow>
       pts ! (2*(2 + m))
         = rim_even (?cur (2 + m)) (case m of 0 \<Rightarrow> ?cur 1 | Suc l \<Rightarrow> ?cur (2 + l))
             (?cur (2 + m)) thick
       \<and> pts ! (2*(2 + m) + 1)
         = rim_odd (?cur (2 + m)) (case m of 0 \<Rightarrow> ?cur 1 | Suc l \<Rightarrow> ?cur (2 + l))
             (?cur (2 + m)) thick"
    by blast
  have "LineBezierQuad_loop lm startPos endPos controlPos thick (Suc 23) 1 startPos points0
          = LineBezierQuad_loop lm startPos endPos controlPos thick 23 (1 + 1) (?cur 1) points2"
    unfolding LineBezierQuad_loop.simps body by simp
  then have loop: "LineBezierQuad_loop lm startPos endPos controlPos thick 24 1 startPos points0
                     = Some (?cur 24, pts)"
    using pts(1) by (simp add: numeral_2_eq_2)
  have first: "pts ! 0 = points2 ! 0" "pts ! 1 = points2 ! 1" using pts(3) by simp_all
  have p0: "pts ! 0 = rim_even startPos startPos (?cur 1) thick"
    unfolding first points2_def using l0 by simp
  have p1: "pts ! 1 = rim_odd startPos startPos (?cur 1) thick"
    unfolding first points2_def using l0 by simp
  have p48: "pts ! 48 = rim_even (?cur 24) (?cur 23) (?cur 24) thick"
    and p49: "pts ! 49 = rim_odd (?cur 24) (?cur 23) (?cur 24) thick"
    using pts(4) [rule_format, of 22] by simp_all
  have "LineBezierQuad_points lm startPos endPos controlPos thick = Some pts"
    unfolding LineBezierQuad_points_def BEZIER_LINE_DIVISIONS_def using loop
    unfolding points0_def by simp
  then show ?thesis using pts(2) l2 p0 p1 p48 p49 by simp
qed


section \<open>The bezier endpoint scenario\<close>


text \<open>
  The roundings of the scenario \<open>P0 = (0, 0)\<close>, \<open>C = (5, 10)\<close>, \<open>P1 = (10, 0)\<close>,
  \<open>thick = 2\<close>: those of the samples 1, 23 and 24 of the curve, and of the rim points
  of the first and of the last sample.
\<close>

lemma bezier_roundings:
  "round32 (1/24) = Fin (11184811/268435456)"
  "round32 (11184811/268435456) = Fin (11184811/268435456)"
  "round32 (257250645/268435456) = Fin (16078165/16777216)"
  "round32 (258507389767225/281474976710656) = Fin (15408241/16777216)"
  "round32 (16078165/8388608) = Fin (16078165/8388608)"
  "round32 (179831236751815/2251799813685248) = Fin (10718777/134217728)"
  "round32 (125099997105721/72057594037927936) = Fin (7456541/4294967296)"
  "round32 (53593885/134217728) = Fin (13398471/33554432)"
  "round32 (13398471/33554432) = Fin (13398471/33554432)"
  "round32 (37282705/2147483648) = Fin (2330169/134217728)"
  "round32 (55924053/134217728) = Fin (13981013/33554432)"
  "round32 (53593885/67108864) = Fin (13398471/16777216)"
  "round32 (13398471/16777216) = Fin (13398471/16777216)"
  "round32 (257250653/268435456) = Fin (8039083/8388608)"
  "round32 (349525/8388608) = Fin (349525/8388608)"
  "round32 (122167725625/70368744177664) = Fin (3728263/2147483648)"
  "round32 (349525/4194304) = Fin (349525/4194304)"
  "round32 (2809860485575/35184372088832) = Fin (10718767/134217728)"
  "round32 (64626855480889/70368744177664) = Fin (15408243/16777216)"
  "round32 (53593835/134217728) = Fin (13398459/33554432)"
  "round32 (13398459/33554432) = Fin (13398459/33554432)"
  "round32 (77041215/8388608) = Fin (1203769/131072)"
  "round32 (321563323/33554432) = Fin (5024427/524288)"
  "round32 (53593835/67108864) = Fin (13398459/16777216)"
  "round32 (13398459/16777216) = Fin (13398459/16777216)"
  "round32 (33554433/33554432) = Fin (1)"
  "round32 (13981013/33554432) = Fin (13981013/33554432)"
  "round32 (195468724506169/1125899906842624) = Fin (2912711/16777216)"
  "round32 (179519025137841/281474976710656) = Fin (1337521/2097152)"
  "round32 (13612879/16777216) = Fin (13612879/16777216)"
  "round32 (4194304/3778113) = Fin (2328171/2097152)"
  "round32 (31193931626541/35184372088832) = Fin (7437213/8388608)"
  "round32 (7437213/8388608) = Fin (7437213/8388608)"
  "round32 (32550189017223/70368744177664) = Fin (3880285/8388608)"
  "round32 (- (3880285/8388608)) = Fin (- (3880285/8388608))"
  "round32 (- (7437213/8388608)) = Fin (- (7437213/8388608))"
  "round32 (3880285/8388608) = Fin (3880285/8388608)"
  "round32 (- (15767839/33554432)) = Fin (- (15767839/33554432))"
  "round32 (21159041/16777216) = Fin (165305/131072)"
  "round32 (43729865/33554432) = Fin (5466233/4194304)"
  "round32 (5637901/16777216) = Fin (5637901/16777216)"
  "round32 (- (13398459/16777216)) = Fin (- (13398459/16777216))"
  "round32 (218453/524288) = Fin (218453/524288)"
  "round32 (47721713209/274877906944) = Fin (11650809/67108864)"
  "round32 (179518703574681/281474976710656) = Fin (10700149/16777216)"
  "round32 (54451405/67108864) = Fin (13612851/16777216)"
  "round32 (16777216/15112437) = Fin (9312693/8388608)"
  "round32 (- (124775735340087/140737488355328)) = Fin (- (14874427/16777216))"
  "round32 (182646587/16777216) = Fin (2853853/262144)"
  "round32 (2034385723929/4398046511104) = Fin (15521131/33554432)"
  "round32 (15521131/33554432) = Fin (15521131/33554432)"
  "round32 (152897733/16777216) = Fin (2389027/262144)"
  "round32 (- (15521131/33554432)) = Fin (- (15521131/33554432))"
proof -
  show "round32 (1/24) = Fin (11184811/268435456)"
    using round32_eval [of 121 "1/24" "11184811"] by (simp add: round_even_def)
  show "round32 (11184811/268435456) = Fin (11184811/268435456)"
    using round32_dyadic [of "11184811/268435456" 28] by simp
  show "round32 (257250645/268435456) = Fin (16078165/16777216)"
    using round32_eval [of 125 "257250645/268435456" "16078165"] by (simp add: round_even_def)
  show "round32 (258507389767225/281474976710656) = Fin (15408241/16777216)"
    using round32_eval [of 125 "258507389767225/281474976710656" "15408241"] by (simp add: round_even_def)
  show "round32 (16078165/8388608) = Fin (16078165/8388608)"
    using round32_dyadic [of "16078165/8388608" 23] by simp
  show "round32 (179831236751815/2251799813685248) = Fin (10718777/134217728)"
    using round32_eval [of 122 "179831236751815/2251799813685248" "10718777"] by (simp add: round_even_def)
  show "round32 (125099997105721/72057594037927936) = Fin (7456541/4294967296)"
    using round32_eval [of 116 "125099997105721/72057594037927936" "14913082"] by (simp add: round_even_def)
  show "round32 (53593885/134217728) = Fin (13398471/33554432)"
    using round32_eval [of 124 "53593885/134217728" "13398471"] by (simp add: round_even_def)
  show "round32 (13398471/33554432) = Fin (13398471/33554432)"
    using round32_dyadic [of "13398471/33554432" 25] by simp
  show "round32 (37282705/2147483648) = Fin (2330169/134217728)"
    using round32_eval [of 120 "37282705/2147483648" "9320676"] by (simp add: round_even_def)
  show "round32 (55924053/134217728) = Fin (13981013/33554432)"
    using round32_eval [of 124 "55924053/134217728" "13981013"] by (simp add: round_even_def)
  show "round32 (53593885/67108864) = Fin (13398471/16777216)"
    using round32_eval [of 125 "53593885/67108864" "13398471"] by (simp add: round_even_def)
  show "round32 (13398471/16777216) = Fin (13398471/16777216)"
    using round32_dyadic [of "13398471/16777216" 24] by simp
  show "round32 (257250653/268435456) = Fin (8039083/8388608)"
    using round32_eval [of 125 "257250653/268435456" "16078166"] by (simp add: round_even_def)
  show "round32 (349525/8388608) = Fin (349525/8388608)"
    using round32_dyadic [of "349525/8388608" 23] by simp
  show "round32 (122167725625/70368744177664) = Fin (3728263/2147483648)"
    using round32_eval [of 116 "122167725625/70368744177664" "14913052"] by (simp add: round_even_def)
  show "round32 (349525/4194304) = Fin (349525/4194304)"
    using round32_dyadic [of "349525/4194304" 22] by simp
  show "round32 (2809860485575/35184372088832) = Fin (10718767/134217728)"
    using round32_eval [of 122 "2809860485575/35184372088832" "10718767"] by (simp add: round_even_def)
  show "round32 (64626855480889/70368744177664) = Fin (15408243/16777216)"
    using round32_eval [of 125 "64626855480889/70368744177664" "15408243"] by (simp add: round_even_def)
  show "round32 (53593835/134217728) = Fin (13398459/33554432)"
    using round32_eval [of 124 "53593835/134217728" "13398459"] by (simp add: round_even_def)
  show "round32 (13398459/33554432) = Fin (13398459/33554432)"
    using round32_dyadic [of "13398459/33554432" 25] by simp
  show "round32 (77041215/8388608) = Fin (1203769/131072)"
    using round32_eval [of 129 "77041215/8388608" "9630152"] by (simp add: round_even_def)
  show "round32 (321563323/33554432) = Fin (5024427/524288)"
    using round32_eval [of 129 "321563323/33554432" "10048854"] by (simp add: round_even_def)
  show "round32 (53593835/67108864) = Fin (13398459/16777216)"
    using round32_eval [of 125 "53593835/67108864" "13398459"] by (simp add: round_even_def)
  show "round32 (13398459/16777216) = Fin (13398459/16777216)"
    using round32_dyadic [of "13398459/16777216" 24] by simp
  show "round32 (33554433/33554432) = Fin (1)"
    using round32_eval [of 126 "33554433/33554432" "8388608"] by (simp add: round_even_def)
  show "round32 (13981013/33554432) = Fin (13981013/33554432)"
    using round32_dyadic [of "13981013/33554432" 25] by simp
  show "round32 (195468724506169/1125899906842624) = Fin (2912711/16777216)"
    using round32_eval [of 123 "195468724506169/1125899906842624" "11650844"] by (simp add: round_even_def)
  show "round32 (179519025137841/281474976710656) = Fin (1337521/2097152)"
    using round32_eval [of 125 "179519025137841/281474976710656" "10700168"] by (simp add: round_even_def)
  show "round32 (13612879/16777216) = Fin (13612879/16777216)"
    using round32_dyadic [of "13612879/16777216" 24] by simp
  show "round32 (4194304/3778113) = Fin (2328171/2097152)"
    using round32_eval [of 126 "4194304/3778113" "9312684"] by (simp add: round_even_def)
  show "round32 (31193931626541/35184372088832) = Fin (7437213/8388608)"
    using round32_eval [of 125 "31193931626541/35184372088832" "14874426"] by (simp add: round_even_def)
  show "round32 (7437213/8388608) = Fin (7437213/8388608)"
    using round32_dyadic [of "7437213/8388608" 23] by simp
  show "round32 (32550189017223/70368744177664) = Fin (3880285/8388608)"
    using round32_eval [of 124 "32550189017223/70368744177664" "15521140"] by (simp add: round_even_def)
  show "round32 (- (3880285/8388608)) = Fin (- (3880285/8388608))"
    using round32_dyadic [of "- (3880285/8388608)" 23] by simp
  show "round32 (- (7437213/8388608)) = Fin (- (7437213/8388608))"
    using round32_dyadic [of "- (7437213/8388608)" 23] by simp
  show "round32 (3880285/8388608) = Fin (3880285/8388608)"
    using round32_dyadic [of "3880285/8388608" 23] by simp
  show "round32 (- (15767839/33554432)) = Fin (- (15767839/33554432))"
    using round32_dyadic [of "- (15767839/33554432)" 25] by simp
  show "round32 (21159041/16777216) = Fin (165305/131072)"
    using round32_eval [of 126 "21159041/16777216" "10579520"] by (simp add: round_even_def)
  show "round32 (43729865/33554432) = Fin (5466233/4194304)"
    using round32_eval [of 126 "43729865/33554432" "10932466"] by (simp add: round_even_def)
  show "round32 (5637901/16777216) = Fin (5637901/16777216)"
    using round32_dyadic [of "5637901/16777216" 24] by simp
  show "round32 (- (13398459/16777216)) = Fin (- (13398459/16777216))"
    using round32_dyadic [of "- (13398459/16777216)" 24] by simp
  show "round32 (218453/524288) = Fin (218453/524288)"
    using round32_dyadic [of "218453/524288" 19] by simp
  show "round32 (47721713209/274877906944) = Fin (11650809/67108864)"
    using round32_eval [of 123 "47721713209/274877906944" "11650809"] by (simp add: round_even_def)
  show "round32 (179518703574681/281474976710656) = Fin (10700149/16777216)"
    using round32_eval [of 125 "179518703574681/281474976710656" "10700149"] by (simp add: round_even_def)
  show "round32 (54451405/67108864) = Fin (13612851/16777216)"
    using round32_eval [of 125 "54451405/67108864" "13612851"] by (simp add: round_even_def)
  show "round32 (16777216/15112437) = Fin (9312693/8388608)"
    using round32_eval [of 126 "16777216/15112437" "9312693"] by (simp add: round_even_def)
  show "round32 (- (124775735340087/140737488355328)) = Fin (- (14874427/16777216))"
    using round32_eval [of 125 "- (124775735340087/140737488355328)" "- 14874427"] by (simp add: round_even_def)
  show "round32 (182646587/16777216) = Fin (2853853/262144)"
    using round32_eval [of 129 "182646587/16777216" "11415412"] by (simp add: round_even_def)
  show "round32 (2034385723929/4398046511104) = Fin (15521131/33554432)"
    using round32_eval [of 124 "2034385723929/4398046511104" "15521131"] by (simp add: round_even_def)
  show "round32 (15521131/33554432) = Fin (15521131/33554432)"
    using round32_dyadic [of "15521131/33554432" 25] by simp
  show "round32 (152897733/16777216) = Fin (2389027/262144)"
    using round32_eval [of 129 "152897733/16777216" "9556108"] by (simp add: round_even_def)
  show "round32 (- (15521131/33554432)) = Fin (- (15521131/33554432))"
    using round32_dyadic [of "- (15521131/33554432)" 25] by simp
qed






text \<open>
  When the three control points coincide the chord between two samples has no length,
  \<open>size\<close> is a quotient by zero and the rim points are NaN; the strip still has its
  50 points.
\<close>

lemma LineBezierQuad_coincident:
  "\<exists>points. LineBezierQuad_points libm_rounded \<lparr>vec_x = Fin 0, vec_y = Fin 0\<rparr> \<lparr>vec_x = Fin 0, vec_y = Fin 0\<rparr> \<lparr>vec_x = Fin 0, vec_y = Fin 0\<rparr> (Fin 2) = Some points
      \<and> length points = 50
      \<and> points ! 0 = \<lparr>vec_x = NaN, vec_y = NaN\<rparr>"
proof -
  have c: "LineBezierQuad_current libm_rounded \<lparr>vec_x = Fin 0, vec_y = Fin 0\<rparr> \<lparr>vec_x = Fin 0, vec_y = Fin 0\<rparr> \<lparr>vec_x = Fin 0, vec_y = Fin 0\<rparr> 1 = \<lparr>vec_x = Fin 0, vec_y = Fin 0\<rparr>"
    by (simp add: LineBezierQuad_current_def BEZIER_LINE_DIVISIONS_def float_of_int_def
        minus_float32_def libm_rounded_def round32_small bezier_roundings)
  have r: "rim_even \<lparr>vec_x = Fin 0, vec_y = Fin 0\<rparr> \<lparr>vec_x = Fin 0, vec_y = Fin 0\<rparr> \<lparr>vec_x = Fin 0, vec_y = Fin 0\<rparr> (Fin 2) = \<lparr>vec_x = NaN, vec_y = NaN\<rparr>"
    by (simp add: rim_even_def minus_float32_def round32_small)
  show ?thesis
    using LineBezierQuad_points_ends [of libm_rounded "\<lparr>vec_x = Fin 0, vec_y = Fin 0\<rparr>" "\<lparr>vec_x = Fin 0, vec_y = Fin 0\<rparr>" "\<lparr>vec_x = Fin 0, vec_y = Fin 0\<rparr>" "Fin 2"]
    unfolding c r by blast
qed




end
